theory Spec2Isabelle
  imports Main "HOL-Library.Sublist"
begin

section \<open>JavaScript strings\<close>

text \<open>
  Text is a list of characters. The whitespace that \<open>String.prototype.trim\<close> strips is
  tab, line feed, vertical tab, form feed, carriage return, space and the no-break space
  (the part of the ECMAScript white-space set that an 8-bit character can hold).
\<close>

definition isWhite :: "char \<Rightarrow> bool" where
  "isWhite c = (c \<in> set [CHR 0x09, CHR 0x0A, CHR 0x0B, CHR 0x0C, CHR 0x0D, CHR 0x20, CHR 0xA0])"

definition trim :: "string \<Rightarrow> string" where
  "trim s = rev (dropWhile isWhite (rev (dropWhile isWhite s)))"

definition lowerChar :: "char \<Rightarrow> char" where
  "lowerChar c =
     (let n = (of_char c :: nat)
      in if (65 \<le> n \<and> n \<le> 90) \<or> (192 \<le> n \<and> n \<le> 222 \<and> n \<noteq> 215)
         then char_of (n + 32) else c)"

definition toLowerCase :: "string \<Rightarrow> string" where
  "toLowerCase s = map lowerChar s"

text \<open>\<open>s.substring(0, n)\<close>\<close>

definition substring0 :: "nat \<Rightarrow> string \<Rightarrow> string" where
  "substring0 n s = take n s"

text \<open>\<open>s.split(sep)\<close> for a one-character separator: never the empty array.\<close>

fun split :: "char \<Rightarrow> string \<Rightarrow> string list" where
  "split sep [] = [[]]"
| "split sep (c # cs) =
     (if c = sep then [] # split sep cs
      else (case split sep cs of p # ps \<Rightarrow> (c # p) # ps | [] \<Rightarrow> [[c]]))"

text \<open>\<open>a || b\<close> on strings: the empty string is falsy.\<close>

definition orElse :: "string \<Rightarrow> string \<Rightarrow> string" where
  "orElse a b = (if a \<noteq> [] then a else b)"

text \<open>Template literals print a number in decimal.\<close>

fun showNat :: "nat \<Rightarrow> string" where
  "showNat n =
     (if n < 10 then [char_of (48 + n)]
      else showNat (n div 10) @ [char_of (48 + n mod 10)])"

declare showNat.simps [simp del]

section \<open>The document\<close>

text \<open>
  A document is a tree of element and text nodes. Every element carries the identity
  \<open>nid\<close> under which the script holds a reference to it, its upper-case \<open>tagName\<close>, its
  attributes in the order they were set, and its child nodes.
\<close>

datatype node =
    Text (chars: string)
  | Element (nid: nat) (tagName: string) (attrs: "(string \<times> string) list") (children: "node list")
where
  "nid (Text s) = 0"
| "tagName (Text s) = []"
| "attrs (Text s) = []"
| "children (Text s) = []"
| "chars (Element i t a cs) = []"

fun isElement :: "node \<Rightarrow> bool" where
  "isElement (Text s) = False"
| "isElement (Element i t a cs) = True"

fun textContent :: "node \<Rightarrow> string" where
  "textContent (Text s) = s"
| "textContent (Element i t a cs) = concat (map textContent cs)"

text \<open>The elements of a subtree in document order, the root of the subtree first.\<close>

fun elementsOf :: "node \<Rightarrow> node list" where
  "elementsOf (Text s) = []"
| "elementsOf (Element i t a cs) = Element i t a cs # concat (map elementsOf cs)"

definition descendants :: "node \<Rightarrow> node list" where
  "descendants n = concat (map elementsOf (children n))"

definition hasAttribute :: "node \<Rightarrow> string \<Rightarrow> bool" where
  "hasAttribute n k = (map_of (attrs n) k \<noteq> None)"

definition getAttribute :: "node \<Rightarrow> string \<Rightarrow> string" where
  "getAttribute n k = (case map_of (attrs n) k of Some v \<Rightarrow> v | None \<Rightarrow> [])"

text \<open>The selector \<open>h1, h2, h3, h4, h5, h6\<close> and the test \<open>/^H[1-6]$/\<close> on a tag name.\<close>

definition isHeadingTag :: "string \<Rightarrow> bool" where
  "isHeadingTag t = (t \<in> set [''H1'', ''H2'', ''H3'', ''H4'', ''H5'', ''H6''])"

definition isHeading :: "node \<Rightarrow> bool" where
  "isHeading n = (isElement n \<and> isHeadingTag (tagName n))"

text \<open>\<open>parseInt(tagName[1])\<close>: the digit, or \<open>None\<close> for \<open>NaN\<close>.\<close>

definition parseLevel :: "string \<Rightarrow> nat option" where
  "parseLevel t =
     (case t of
        _ # c # _ \<Rightarrow>
          (let n = (of_char c :: nat) in if 48 \<le> n \<and> n \<le> 57 then Some (n - 48) else None)
      | _ \<Rightarrow> None)"

text \<open>\<open>a <= b\<close> on numbers: false as soon as one side is \<open>NaN\<close>.\<close>

definition numLe :: "nat option \<Rightarrow> nat option \<Rightarrow> bool" where
  "numLe a b = (case (a, b) of (Some x, Some y) \<Rightarrow> x \<le> y | _ \<Rightarrow> False)"

text \<open>\<open>el.querySelector('h1, h2, h3, h4, h5, h6')\<close>: the first heading below \<open>el\<close>.\<close>

definition querySelectorHeading :: "node \<Rightarrow> node option" where
  "querySelectorHeading n =
     (case filter isHeading (descendants n) of [] \<Rightarrow> None | h # _ \<Rightarrow> Some h)"

text \<open>
  A reference to an element gives access to its following siblings and to its ancestors.
  \<open>locate h anc ns\<close> searches the nodes \<open>ns\<close> (children of the innermost ancestor in
  \<open>anc\<close>) for the element \<open>h\<close> and returns the element, the nodes after it under the same
  parent, and its ancestors, innermost first, each with the nodes after it.
\<close>

type_synonym place = "node \<times> node list \<times> (node \<times> node list) list"

fun locate :: "nat \<Rightarrow> (node \<times> node list) list \<Rightarrow> node list \<Rightarrow> place option" where
  "locate h anc [] = None"
| "locate h anc (Text s # rest) = locate h anc rest"
| "locate h anc (Element i t a cs # rest) =
     (if i = h then Some (Element i t a cs, rest, anc)
      else (case locate h ((Element i t a cs, rest) # anc) cs of
              Some r \<Rightarrow> Some r
            | None \<Rightarrow> locate h anc rest))"

definition findPlace :: "node \<Rightarrow> nat \<Rightarrow> place option" where
  "findPlace doc h = locate h [] [doc]"

section \<open>Section content\<close>

text \<open>
  \<open>innerText\<close> is computed by the browser from the rendered subtree; the functions below
  take it as the parameter \<open>it\<close>. \<open>textOf\<close> is \<open>el.innerText || el.textContent || ""\<close>.
\<close>

definition textOf :: "(node \<Rightarrow> string) \<Rightarrow> node \<Rightarrow> string" where
  "textOf it n = orElse (it n) (orElse (textContent n) [])"

definition skippedTag :: "string \<Rightarrow> bool" where
  "skippedTag t = (t \<in> set [''SCRIPT'', ''STYLE'', ''NAV'', ''ASIDE''])"

text \<open>The first loop of \<open>getSectionContent\<close>, over the heading's following element siblings.\<close>

fun siblingWalk :: "(node \<Rightarrow> string) \<Rightarrow> nat option \<Rightarrow> string \<Rightarrow> node list \<Rightarrow> string" where
  "siblingWalk it lvl content [] = content"
| "siblingWalk it lvl content (Text s # rest) = siblingWalk it lvl content rest"
| "siblingWalk it lvl content (Element i t a cs # rest) =
     (if t \<noteq> [] \<and> isHeadingTag t \<and> numLe (parseLevel t) lvl then content
      else
        (let content1 =
               (if t \<noteq> [] \<and> \<not> skippedTag t \<and> trim (textOf it (Element i t a cs)) \<noteq> []
                then content @ textOf it (Element i t a cs) @ '' ''
                else content)
         in if length content1 > 3000 then substring0 3000 content1
            else siblingWalk it lvl content1 rest))"

text \<open>The second loop, over the following element siblings of the heading's parent.\<close>

fun parentWalk :: "(node \<Rightarrow> string) \<Rightarrow> nat option \<Rightarrow> string \<Rightarrow> node list \<Rightarrow> string" where
  "parentWalk it lvl content [] = content"
| "parentWalk it lvl content (Text s # rest) = parentWalk it lvl content rest"
| "parentWalk it lvl content (Element i t a cs # rest) =
     (if \<not> length content < 3000 then content
      else
        (case querySelectorHeading (Element i t a cs) of
           Some nh \<Rightarrow>
             (if numLe (parseLevel (tagName nh)) lvl then content
              else parentWalk it lvl
                     (if trim (textOf it (Element i t a cs)) \<noteq> [] \<and> \<not> skippedTag t
                      then content @ textOf it (Element i t a cs) @ '' '' else content) rest)
         | None \<Rightarrow>
             parentWalk it lvl
               (if trim (textOf it (Element i t a cs)) \<noteq> [] \<and> \<not> skippedTag t
                then content @ textOf it (Element i t a cs) @ '' '' else content) rest))"

text \<open>
  \<open>getSectionContent(heading)\<close> for a heading given by its place in the document: the
  sibling walk, then the parent's siblings when fewer than 50 characters were found, then
  the parent's whole text when there are still fewer than 50.
\<close>

definition sectionOfPlace :: "(node \<Rightarrow> string) \<Rightarrow> place \<Rightarrow> string" where
  "sectionOfPlace it p =
     (case p of (heading, sibs, anc) \<Rightarrow>
        (let headingLevel = parseLevel (tagName heading);
             content1 = siblingWalk it headingLevel [] sibs;
             content2 =
               (if length content1 < 50
                then (case anc of
                        [] \<Rightarrow> content1
                      | (parent, psibs) # _ \<Rightarrow> parentWalk it headingLevel content1 psibs)
                else content1);
             content3 =
               (case anc of
                  [] \<Rightarrow> content2
                | (parent, psibs) # _ \<Rightarrow>
                    (if length content2 < 50 then substring0 3000 (orElse (it parent) [])
                     else content2))
         in trim content3))"

definition getSectionContent :: "(node \<Rightarrow> string) \<Rightarrow> node \<Rightarrow> nat \<Rightarrow> string" where
  "getSectionContent it doc h =
     (case findPlace doc h of None \<Rightarrow> [] | Some p \<Rightarrow> sectionOfPlace it p)"

section \<open>Changing the document\<close>

fun setAttr :: "string \<Rightarrow> string \<Rightarrow> (string \<times> string) list \<Rightarrow> (string \<times> string) list" where
  "setAttr k v [] = [(k, v)]"
| "setAttr k v ((k', v') # kvs) = (if k' = k then (k, v) # kvs else (k', v') # setAttr k v kvs)"

text \<open>\<open>el.setAttribute(k, v)\<close> on the element with the identity \<open>h\<close>.\<close>

fun setAttribute :: "nat \<Rightarrow> string \<Rightarrow> string \<Rightarrow> node \<Rightarrow> node" where
  "setAttribute h k v (Text s) = Text s"
| "setAttribute h k v (Element i t a cs) =
     Element i t (if i = h then setAttr k v a else a) (map (setAttribute h k v) cs)"

text \<open>\<open>el.insertAdjacentElement('afterend', new)\<close> on the element \<open>h\<close> of the tree.\<close>

fun insertAfter :: "nat \<Rightarrow> node \<Rightarrow> node \<Rightarrow> node"
  and insertAfterIn :: "nat \<Rightarrow> node \<Rightarrow> node list \<Rightarrow> node list" where
  "insertAfter h new (Text s) = Text s"
| "insertAfter h new (Element i t a cs) = Element i t a (insertAfterIn h new cs)"
| "insertAfterIn h new [] = []"
| "insertAfterIn h new (n # ns) =
     (if isElement n \<and> nid n = h then n # new # ns
      else insertAfter h new n # insertAfterIn h new ns)"

text \<open>An identity that no element of the document has yet, for \<open>document.createElement\<close>.\<close>

definition freshId :: "node \<Rightarrow> nat" where
  "freshId d = Suc (fold max (map nid (elementsOf d)) 0)"

text \<open>
  Characters outside Latin-1 are written as their UTF-8 bytes: the memo sign in front of a
  section summary and the brain sign in the title of the page summary.
\<close>

definition memoSign :: string where
  "memoSign = [CHR 0xF0, CHR 0x9F, CHR 0x93, CHR 0x9D]"

definition brainSign :: string where
  "brainSign = [CHR 0xF0, CHR 0x9F, CHR 0xA7, CHR 0xA0]"

text \<open>
  The note that \<open>generateCues\<close> builds for a summary. The summary is placed as one text
  node: mark-up inside a summary is not interpreted.
\<close>

definition sectionSummaryBox :: "nat \<Rightarrow> string \<Rightarrow> node" where
  "sectionSummaryBox i summary =
     Element i ''DIV''
       [(''class'', ''cognitive-section-summary''),
        (''role'', ''note''),
        (''style'', ''background: #f8f9fa; border-left: 3px solid #5f6368; padding: 10px 14px; margin: 8px 0 16px 0; border-radius: 6px; font-family: system-ui, sans-serif; font-size: 14px; line-height: 1.6; color: #202124;'')]
       [Element (Suc i) ''EM'' [] [Text (memoSign @ '' '' @ summary)]]"

text \<open>The block that \<open>generateOverview\<close> puts at the top of the page.\<close>

definition pageSummaryBox :: "nat \<Rightarrow> string \<Rightarrow> node" where
  "pageSummaryBox i summary =
     Element i ''DIV''
       [(''role'', ''status''),
        (''aria-live'', ''polite''),
        (''style'', ''background: #f0f6ff; border-left: 4px solid #1a73e8; padding: 12px 16px; margin: 16px auto; border-radius: 8px; font-family: system-ui, sans-serif; max-width: 800px; line-height: 1.5;'')]
       [Text (CHR 0x0A # replicate 8 (CHR '' '')),
        Element (Suc i) ''H1'' [(''style'', ''margin: 0 0 8px 0; font-size: 18px; font-weight: 600;'')]
          [Text (brainSign @ '' Page Summary'')],
        Text (CHR 0x0A # replicate 8 (CHR '' '')),
        Element (Suc (Suc i)) ''DIV'' [] [Text summary],
        Text (CHR 0x0A # replicate 6 (CHR '' ''))]"

fun isBody :: "node \<Rightarrow> bool" where
  "isBody (Text s) = False"
| "isBody (Element i t a cs) = (t = ''BODY'')"

text \<open>\<open>document.body\<close> of the document whose root element is \<open>d\<close>.\<close>

definition bodyOf :: "node \<Rightarrow> node option" where
  "bodyOf d = find isBody (children d)"

text \<open>
  \<open>document.body.insertBefore(box, document.body.firstChild)\<close>, or \<open>appendChild\<close> when
  the body is empty: the box becomes the first child of the body.
\<close>

fun prependIn :: "node \<Rightarrow> node list \<Rightarrow> node list" where
  "prependIn box [] = []"
| "prependIn box (Text s # ns) = Text s # prependIn box ns"
| "prependIn box (Element i t a cs # ns) =
     (if t = ''BODY'' then Element i t a (box # cs) # ns
      else Element i t a cs # prependIn box ns)"

fun prependToBody :: "node \<Rightarrow> node \<Rightarrow> node" where
  "prependToBody box (Text s) = Text s"
| "prependToBody box (Element i t a cs) = Element i t a (prependIn box cs)"

section \<open>Page content\<close>

definition querySelectorTag :: "node \<Rightarrow> string \<Rightarrow> node option" where
  "querySelectorTag d t = find (\<lambda>n. tagName n = t) (elementsOf d)"

text \<open>The clone without its \<open>script\<close>, \<open>style\<close> and \<open>noscript\<close> descendants.\<close>

fun withoutScripts :: "node \<Rightarrow> node"
  and withoutScriptsIn :: "node list \<Rightarrow> node list" where
  "withoutScripts (Text s) = Text s"
| "withoutScripts (Element i t a cs) = Element i t a (withoutScriptsIn cs)"
| "withoutScriptsIn [] = []"
| "withoutScriptsIn (n # ns) =
     (if isElement n \<and> tagName n \<in> set [''SCRIPT'', ''STYLE'', ''NOSCRIPT'']
      then withoutScriptsIn ns
      else withoutScripts n # withoutScriptsIn ns)"

text \<open>
  \<open>extractMainContent()\<close>; \<open>Inl\<close> is the \<open>TypeError\<close> of \<open>cloneNode\<close> on a missing
  body, with the message \<open>m\<close> the engine gives it.
\<close>

definition extractMainContent :: "(node \<Rightarrow> string) \<Rightarrow> string \<Rightarrow> node \<Rightarrow> string + string" where
  "extractMainContent it m d =
     (let contentArea =
            (case querySelectorTag d ''MAIN'' of
               Some main \<Rightarrow> Some main
             | None \<Rightarrow>
                 (case querySelectorTag d ''ARTICLE'' of
                    Some article \<Rightarrow> Some article
                  | None \<Rightarrow> bodyOf d))
      in case contentArea of
           None \<Rightarrow> Inl m
         | Some area \<Rightarrow> Inr (trim (substring0 5000 (orElse (it (withoutScripts area)) []))))"

text \<open>
  \<open>getElementContext(element)\<close>: the text of the first heading found below one of the
  nearest five ancestors, then up to 200 characters of the parent's text.
\<close>

fun nearestHeadingText :: "(node \<Rightarrow> string) \<Rightarrow> nat \<Rightarrow> node list \<Rightarrow> string" where
  "nearestHeadingText it depth [] = []"
| "nearestHeadingText it depth (parent # up) =
     (if depth < 5
      then (case querySelectorHeading parent of
              Some heading \<Rightarrow>
                (if it heading \<noteq> [] then it heading
                 else nearestHeadingText it (Suc depth) up)
            | None \<Rightarrow> nearestHeadingText it (Suc depth) up)
      else [])"

definition contextOfPlace :: "(node \<Rightarrow> string) \<Rightarrow> place \<Rightarrow> string" where
  "contextOfPlace it p =
     (case p of (element, sibs, anc) \<Rightarrow>
        (let context = nearestHeadingText it 0 (map fst anc);
             nearbyText = (case anc of [] \<Rightarrow> [] | (parent, psibs) # _ \<Rightarrow> orElse (it parent) [])
         in trim (context @ '' '' @ substring0 200 nearbyText)))"

section \<open>The generation capability and the record of a run\<close>

text \<open>
  What a run does to the outside world is recorded as a list of events, oldest first:
  announcements, pacing delays, the calls on the capability and the writes to the document.
  An awaited \<open>setTimeout\<close> of \<open>ms\<close> milliseconds is the event \<open>Sleep ms\<close>: the run
  goes on no earlier than \<open>ms\<close> milliseconds later. A call of \<open>announce\<close> is one event;
  what it does to the live region is the subject of the last section of the model. The
  live region is kept apart from the tree of the document, so that the rendered text of
  an element does not change with the announcements.
\<close>

datatype event =
    Announce string
  | AnnounceLater nat string
  | Sleep nat
  | Availability
  | CreateFailed
  | Create nat
  | Run nat string
  | Destroy nat
  | SetAttribute nat string string
  | InsertAfter nat node
  | InsertTop node

text \<open>
  A capability (\<open>window.Summarizer\<close> or \<open>window.LanguageModel\<close>) is external. It is
  \<open>present\<close> or not; \<open>availability\<close> resolves to a string or rejects (\<open>Inl\<close>, with the
  error's message); \<open>create\<close> rejects (\<open>Some\<close> message) or returns a session, after firing
  download-progress events with the rounded percentages \<open>progress\<close>; \<open>run\<close> is
  \<open>summarize\<close> or \<open>prompt\<close> on a session and resolves to a string or rejects. What the
  capability answers may depend on everything that happened before, so \<open>create\<close>,
  \<open>progress\<close> and \<open>run\<close> take the events so far.
\<close>

record capability =
  present :: bool
  availability :: "string + string"
  create :: "event list \<Rightarrow> string option"
  progress :: "event list \<Rightarrow> nat list"
  run :: "event list \<Rightarrow> string \<Rightarrow> string + string"

record browser =
  innerText :: "node \<Rightarrow> string"
  hrefOf :: "node \<Rightarrow> string"
  nullMessage :: string
  Summarizer :: capability
  LanguageModel :: capability

record page =
  dom :: node
  events :: "event list"

fun isCreate :: "event \<Rightarrow> bool" where
  "isCreate (Create n) = True"
| "isCreate e = False"

fun isRun :: "event \<Rightarrow> bool" where
  "isRun (Run n x) = True"
| "isRun e = False"

text \<open>Sessions are numbered in the order of their creation.\<close>

definition nextSession :: "event list \<Rightarrow> nat" where
  "nextSession es = length (filter isCreate es)"

text \<open>\<open>error.message || "Unknown error"\<close>\<close>

definition errorMsg :: "string \<Rightarrow> string" where
  "errorMsg m = orElse m ''Unknown error''"

section \<open>The page overview\<close>

definition overviewFailed :: "node \<Rightarrow> event list \<Rightarrow> string \<Rightarrow> page" where
  "overviewFailed d es m =
     \<lparr>dom = d,
      events = es @ [AnnounceLater 500 (''AI Overview failed. Error: '' @ errorMsg m)]\<rparr>"

definition downloadAnnouncements :: "nat list \<Rightarrow> event list" where
  "downloadAnnouncements ps =
     map (\<lambda>percent. Announce (''Model downloading: '' @ showNat percent @ '' percent complete.''))
       (filter (\<lambda>percent. percent mod 25 = 0) ps)"

definition generateOverview :: "browser \<Rightarrow> node \<Rightarrow> page" where
  "generateOverview env d =
     (let e0 = [Announce ''Starting AI overview generation. Please wait.'']
      in if \<not> present (Summarizer env)
         then overviewFailed d e0 ''Summarizer API not found. Need Chrome 138+ with flags enabled.''
         else
           (case availability (Summarizer env) of
              Inl m \<Rightarrow> overviewFailed d (e0 @ [Availability]) m
            | Inr avail \<Rightarrow>
                (if avail = ''no''
                 then overviewFailed d (e0 @ [Availability])
                        ''Summarizer API is unavailable. Download model at chrome://components''
                 else
                   (let e1 = e0 @ [Availability] @
                          (if avail = ''after-download''
                           then [Announce ''AI model needs to be downloaded. Starting download. This may take a few minutes.'']
                           else [])
                    in case extractMainContent (innerText env) (nullMessage env) d of
                         Inl m \<Rightarrow> overviewFailed d e1 m
                       | Inr txt \<Rightarrow>
                           (if txt = [] \<or> length txt < 50
                            then \<lparr>dom = d,
                                  events = e1 @ [Announce ''Page content is too short to summarize.'']\<rparr>
                            else
                              (let e2 = e1 @ [Announce ''Generating summary. This may take a moment.''];
                                   e3 = e2 @ downloadAnnouncements (progress (Summarizer env) e2)
                               in case create (Summarizer env) e2 of
                                    Some m \<Rightarrow> overviewFailed d (e3 @ [CreateFailed]) m
                                  | None \<Rightarrow>
                                      (let summarizer = nextSession e3;
                                           e4 = e3 @ [Create summarizer, Run summarizer txt]
                                       in case run (Summarizer env) (e3 @ [Create summarizer]) txt of
                                            Inl m \<Rightarrow> overviewFailed d e4 m
                                          | Inr summary \<Rightarrow>
                                              (if summary \<noteq> [] \<and> trim summary \<noteq> []
                                               then
                                                 (let summaryBox = pageSummaryBox (freshId d) summary
                                                  in \<lparr>dom = prependToBody summaryBox d,
                                                      events = e4 @ [Destroy summarizer, InsertTop summaryBox,
                                                         AnnounceLater 500 (''AI Overview complete. '' @ summary)]\<rparr>)
                                               else overviewFailed d (e4 @ [Destroy summarizer])
                                                      ''Summary generation returned empty result''))))))))"

section \<open>Section summaries\<close>

definition summaryMarker :: string where
  "summaryMarker = ''data-cognitive-summary''"

text \<open>
  One turn of the loop of \<open>generateCues\<close> for the heading \<open>h\<close> at position \<open>index\<close> of
  \<open>len\<close> headings, from the page and the success count so far. A rejected \<open>create\<close> or
  \<open>summarize\<close> is caught by the turn's own handler, which only logs.
\<close>

definition summarizeHeading ::
  "browser \<Rightarrow> nat \<Rightarrow> nat \<Rightarrow> nat \<Rightarrow> page \<times> nat \<Rightarrow> page \<times> nat" where
  "summarizeHeading env len index h st =
     (case st of (p, successCount) \<Rightarrow>
        (let e1 = events p @ [Sleep 1000]
         in case findPlace (dom p) h of
              None \<Rightarrow> (p\<lparr>events := e1\<rparr>, successCount)
            | Some (heading, sibs, anc) \<Rightarrow>
                (let headingText = trim (innerText env heading)
                 in if headingText = [] \<or> length headingText > 200
                    then (p\<lparr>events := e1\<rparr>, successCount)
                    else if hasAttribute heading summaryMarker
                    then (p\<lparr>events := e1\<rparr>, successCount)
                    else
                      (let sectionContent = sectionOfPlace (innerText env) (heading, sibs, anc)
                       in if sectionContent = [] \<or> length sectionContent < 30
                          then (p\<lparr>events := e1\<rparr>, successCount)
                          else
                            (let e2 = e1 @ [Announce (''Processing section '' @ showNat (index + 1)
                                              @ '' of '' @ showNat len @ '': '' @ headingText)]
                             in case create (Summarizer env) e2 of
                                  Some m \<Rightarrow> (p\<lparr>events := e2 @ [CreateFailed]\<rparr>, successCount)
                                | None \<Rightarrow>
                                    (let summarizer = nextSession e2;
                                         e3 = e2 @ [Create summarizer, Run summarizer sectionContent]
                                     in case run (Summarizer env) (e2 @ [Create summarizer]) sectionContent of
                                          Inl m \<Rightarrow> (p\<lparr>events := e3\<rparr>, successCount)
                                        | Inr summary \<Rightarrow>
                                            (if summary \<noteq> [] \<and> trim summary \<noteq> []
                                             then
                                               (let d1 = setAttribute h summaryMarker ''true'' (dom p);
                                                    summaryBox = sectionSummaryBox (freshId d1) summary
                                                in (\<lparr>dom = insertAfter h summaryBox d1,
                                                     events = e3 @ [Destroy summarizer,
                                                        SetAttribute h summaryMarker ''true'',
                                                        InsertAfter h summaryBox] @
                                                       (if (index + 1) mod 5 = 0
                                                        then [Announce (''Processed '' @ showNat (index + 1)
                                                                @ '' of '' @ showNat len @ '' sections.'')]
                                                        else [])\<rparr>,
                                                    successCount + 1))
                                             else (p\<lparr>events := e3 @ [Destroy summarizer]\<rparr>,
                                                   successCount))))))))"

fun summarizeHeadings ::
  "browser \<Rightarrow> nat \<Rightarrow> nat \<Rightarrow> nat list \<Rightarrow> page \<times> nat \<Rightarrow> page \<times> nat" where
  "summarizeHeadings env len index [] st = st"
| "summarizeHeadings env len index (h # hs) st =
     summarizeHeadings env len (Suc index) hs (summarizeHeading env len index h st)"

definition cuesFailed :: "node \<Rightarrow> event list \<Rightarrow> string \<Rightarrow> page \<times> nat" where
  "cuesFailed d es m =
     (\<lparr>dom = d, events = es @ [Announce (''Section summaries failed. Error: '' @ errorMsg m)]\<rparr>, 0)"

text \<open>\<open>document.querySelectorAll("h1, h2, h3, h4, h5, h6")\<close>, as references.\<close>

definition headingsOf :: "node \<Rightarrow> nat list" where
  "headingsOf d = map nid (filter isHeading (elementsOf d))"

text \<open>\<open>generateCues()\<close>: the page at the end of the run and the value of \<open>successCount\<close>.\<close>

definition generateCues :: "browser \<Rightarrow> node \<Rightarrow> page \<times> nat" where
  "generateCues env d =
     (let e0 = [Announce ''Starting section summaries generation. Please wait.'']
      in if \<not> present (Summarizer env)
         then cuesFailed d e0 ''Summarizer API not found. Need Chrome 138+ with flags enabled.''
         else
           (case availability (Summarizer env) of
              Inl m \<Rightarrow> cuesFailed d (e0 @ [Availability]) m
            | Inr avail \<Rightarrow>
                (if avail = ''no''
                 then cuesFailed d (e0 @ [Availability])
                        ''Summarizer API is unavailable. Download model at chrome://components''
                 else
                   (let e1 = e0 @ [Availability] @
                          (if avail = ''after-download''
                           then [Announce ''AI model needs to be downloaded. This may take a few minutes.'']
                           else []);
                        headings = headingsOf d
                    in if length headings = 0
                       then (\<lparr>dom = d,
                              events = e1 @ [Announce ''No section headings found on this page.'']\<rparr>, 0)
                       else
                         (let e2 = e1 @ [Announce (''Generating summaries for '' @ showNat (length headings)
                                           @ '' sections. This will take a moment.'')]
                          in case summarizeHeadings env (length headings) 0 headings
                                    (\<lparr>dom = d, events = e2\<rparr>, 0) of
                               (p, successCount) \<Rightarrow>
                                 (p\<lparr>events := events p @
                                     [Announce (''Section summaries complete. Generated ''
                                        @ showNat successCount
                                        @ '' summaries. Navigate the page to see them.'')]\<rparr>,
                                  successCount))))))"

section \<open>Ambiguous links and buttons\<close>

definition ambiguousTerms :: "string list" where
  "ambiguousTerms =
     [''click here'', ''here'', ''learn more'', ''read more'',
      ''more'', ''continue'', ''next'', ''go'', ''view'', ''see'']"

text \<open>\<open>document.querySelectorAll("a, button")\<close>\<close>

definition linksAndButtons :: "node \<Rightarrow> node list" where
  "linksAndButtons d = filter (\<lambda>n. tagName n \<in> set [''A'', ''BUTTON'']) (elementsOf d)"

definition hasLabel :: "node \<Rightarrow> bool" where
  "hasLabel el = (hasAttribute el ''aria-label'' \<and> trim (getAttribute el ''aria-label'') \<noteq> [])"

text \<open>The test of the selection loop of \<open>fixContextLabels\<close> on one element.\<close>

definition needsFixing :: "(node \<Rightarrow> string) \<Rightarrow> node \<Rightarrow> bool" where
  "needsFixing it el =
     (let txt = toLowerCase (trim (orElse (it el) (orElse (textContent el) [])))
      in \<not> hasLabel el \<and> (txt \<in> set ambiguousTerms \<or> length txt < 3 \<or> txt = []))"

definition elementsToFix :: "(node \<Rightarrow> string) \<Rightarrow> node \<Rightarrow> node list" where
  "elementsToFix it d = filter (needsFixing it) (linksAndButtons d)"

text \<open>Cleaning the response: first line, wrapping quotes, one closing punctuation mark.\<close>

definition firstLine :: "string \<Rightarrow> string" where
  "firstLine s = (case split (CHR 0x0A) s of l # _ \<Rightarrow> l | [] \<Rightarrow> [])"

definition isQuote :: "char \<Rightarrow> bool" where
  "isQuote c = (c = CHR 0x22 \<or> c = CHR 0x27)"

definition isEndMark :: "char \<Rightarrow> bool" where
  "isEndMark c = (c \<in> set ''.!?'')"

definition dropFirstIf :: "(char \<Rightarrow> bool) \<Rightarrow> string \<Rightarrow> string" where
  "dropFirstIf P s = (case s of [] \<Rightarrow> [] | c # cs \<Rightarrow> if P c then cs else s)"

definition dropLastIf :: "(char \<Rightarrow> bool) \<Rightarrow> string \<Rightarrow> string" where
  "dropLastIf P s = (if s \<noteq> [] \<and> P (last s) then butlast s else s)"

definition cleanLabel :: "string \<Rightarrow> string" where
  "cleanLabel response =
     substring0 60 (dropLastIf isEndMark (dropLastIf isQuote (dropFirstIf isQuote
       (firstLine (trim response)))))"

definition acceptLabel :: "string \<Rightarrow> bool" where
  "acceptLabel label = (label \<noteq> [] \<and> length (split (CHR '' '') label) \<le> 8)"

definition labelPrompt :: "string \<Rightarrow> string \<Rightarrow> string \<Rightarrow> string" where
  "labelPrompt currentText href context =
     ''Generate an aria-label for this element:'' @ [CHR 0x0A] @
     ''Text: '' @ [CHR 0x22] @ currentText @ [CHR 0x22, CHR 0x0A] @
     ''URL: '' @ [CHR 0x22] @ href @ [CHR 0x22, CHR 0x0A] @
     ''Context: '' @ [CHR 0x22] @ substring0 200 context @ [CHR 0x22, CHR 0x0A] @
     ''Label (3-5 words):''"

text \<open>One turn of the loop of \<open>fixContextLabels\<close>, on the one session of the run.\<close>

definition fixElement ::
  "browser \<Rightarrow> nat \<Rightarrow> nat \<Rightarrow> nat \<Rightarrow> nat \<Rightarrow> page \<times> nat \<Rightarrow> page \<times> nat" where
  "fixElement env session len index h st =
     (case st of (p, successCount) \<Rightarrow>
        (let e1 = events p @ [Sleep 600]
         in case findPlace (dom p) h of
              None \<Rightarrow> (p\<lparr>events := e1\<rparr>, successCount)
            | Some (element, sibs, anc) \<Rightarrow>
                (let context = contextOfPlace (innerText env) (element, sibs, anc);
                     currentText = orElse (innerText env element)
                                     (orElse (textContent element) ''button'');
                     href = orElse (hrefOf env element) [];
                     prompt = labelPrompt currentText href context;
                     e2 = e1 @ [Run session prompt]
                 in case run (LanguageModel env) e1 prompt of
                      Inl m \<Rightarrow> (p\<lparr>events := e2\<rparr>, successCount)
                    | Inr response \<Rightarrow>
                        (let label = cleanLabel response
                         in if acceptLabel label
                            then (\<lparr>dom = setAttribute h ''data-cognitive-fixed'' ''true''
                                           (setAttribute h ''aria-label'' label (dom p)),
                                   events = e2 @ [SetAttribute h ''aria-label'' label,
                                      SetAttribute h ''data-cognitive-fixed'' ''true''] @
                                     (if (index + 1) mod 10 = 0
                                      then [Announce (''Processed '' @ showNat (index + 1)
                                              @ '' of '' @ showNat len @ '' elements.'')]
                                      else [])\<rparr>,
                                  successCount + 1)
                            else (p\<lparr>events := e2\<rparr>, successCount)))))"

fun fixElements ::
  "browser \<Rightarrow> nat \<Rightarrow> nat \<Rightarrow> nat \<Rightarrow> nat list \<Rightarrow> page \<times> nat \<Rightarrow> page \<times> nat" where
  "fixElements env session len index [] st = st"
| "fixElements env session len index (h # hs) st =
     fixElements env session len (Suc index) hs (fixElement env session len index h st)"

definition labelsFailed :: "node \<Rightarrow> event list \<Rightarrow> string \<Rightarrow> page \<times> nat" where
  "labelsFailed d es m =
     (\<lparr>dom = d, events = es @ [Announce (''Label fixing failed. Error: '' @ errorMsg m)]\<rparr>, 0)"

text \<open>\<open>fixContextLabels()\<close>: the page at the end of the run and the value of \<open>successCount\<close>.\<close>

definition fixContextLabels :: "browser \<Rightarrow> node \<Rightarrow> page \<times> nat" where
  "fixContextLabels env d =
     (let e0 = [Announce ''Starting to fix ambiguous labels. Please wait.'']
      in if \<not> present (LanguageModel env)
         then labelsFailed d e0 ''Language Model API not found. Need Chrome 138+ with flags enabled.''
         else
           (case availability (LanguageModel env) of
              Inl m \<Rightarrow> labelsFailed d (e0 @ [Availability]) m
            | Inr avail \<Rightarrow>
                (if avail = ''no''
                 then labelsFailed d (e0 @ [Availability])
                        ''Language Model API is unavailable. Download model at chrome://components''
                 else
                   (let e1 = e0 @ [Availability] @
                          (if avail = ''after-download''
                           then [Announce ''AI model needs to be downloaded. Starting download.'']
                           else []);
                        toFix = map nid (elementsToFix (innerText env) d)
                    in if length toFix = 0
                       then (\<lparr>dom = d,
                              events = e1 @ [Announce ''No ambiguous elements found. All links and buttons have clear labels.'']\<rparr>, 0)
                       else
                         (let e2 = e1 @ [Announce (''Fixing '' @ showNat (length toFix)
                                           @ '' ambiguous links and buttons. This may take a moment.'')]
                          in case create (LanguageModel env) e2 of
                               Some m \<Rightarrow> labelsFailed d (e2 @ [CreateFailed]) m
                             | None \<Rightarrow>
                                 (let session = nextSession e2
                                  in case fixElements env session (length toFix) 0 toFix
                                            (\<lparr>dom = d, events = e2 @ [Create session]\<rparr>, 0) of
                                       (p, successCount) \<Rightarrow>
                                         (p\<lparr>events := events p @
                                             [Destroy session,
                                              Announce (''Label fixing complete. Fixed ''
                                                @ showNat successCount
                                                @ '' ambiguous elements with descriptive labels. Navigate the page to hear improved descriptions.'')]\<rparr>,
                                          successCount)))))))"

section \<open>Section cues (\<open>generateCues\<close> of \<open>content.js\<close>)\<close>

definition cueMarker :: string where
  "cueMarker = ''data-cognitive-cue''"

definition cleanCue :: "string \<Rightarrow> string" where
  "cleanCue response = substring0 100 (dropLastIf isEndMark (firstLine (trim response)))"

definition describeHeading ::
  "browser \<Rightarrow> nat \<Rightarrow> nat \<Rightarrow> nat \<Rightarrow> nat \<Rightarrow> page \<times> nat \<Rightarrow> page \<times> nat" where
  "describeHeading env session len index h st =
     (case st of (p, successCount) \<Rightarrow>
        (let e1 = events p @ [Sleep 800]
         in case findPlace (dom p) h of
              None \<Rightarrow> (p\<lparr>events := e1\<rparr>, successCount)
            | Some (heading, sibs, anc) \<Rightarrow>
                (let headingText = trim (innerText env heading)
                 in if headingText = [] \<or> length headingText > 200
                    then (p\<lparr>events := e1\<rparr>, successCount)
                    else if hasAttribute heading cueMarker
                    then (p\<lparr>events := e1\<rparr>, successCount)
                    else
                      (let prompt = ''Describe what this section is about: '' @ [CHR 0x22]
                                      @ headingText @ [CHR 0x22];
                           e2 = e1 @ [Run session prompt]
                       in case run (LanguageModel env) e1 prompt of
                            Inl m \<Rightarrow> (p\<lparr>events := e2\<rparr>, successCount)
                          | Inr response \<Rightarrow>
                              (let cue = cleanCue response
                               in if cue \<noteq> []
                                  then (\<lparr>dom = setAttribute h ''aria-description'' cue
                                                 (setAttribute h cueMarker ''true'' (dom p)),
                                         events = e2 @ [SetAttribute h cueMarker ''true'',
                                            SetAttribute h ''aria-description'' cue] @
                                           (if (index + 1) mod 5 = 0
                                            then [Announce (''Processed '' @ showNat (index + 1)
                                                    @ '' of '' @ showNat len @ '' sections.'')]
                                            else [])\<rparr>,
                                        successCount + 1)
                                  else (p\<lparr>events := e2\<rparr>, successCount))))))"

fun describeHeadings ::
  "browser \<Rightarrow> nat \<Rightarrow> nat \<Rightarrow> nat \<Rightarrow> nat list \<Rightarrow> page \<times> nat \<Rightarrow> page \<times> nat" where
  "describeHeadings env session len index [] st = st"
| "describeHeadings env session len index (h # hs) st =
     describeHeadings env session len (Suc index) hs (describeHeading env session len index h st)"

definition sectionCuesFailed :: "node \<Rightarrow> event list \<Rightarrow> string \<Rightarrow> page \<times> nat" where
  "sectionCuesFailed d es m =
     (\<lparr>dom = d, events = es @ [Announce (''Section cues failed. Error: '' @ errorMsg m)]\<rparr>, 0)"

definition generateCues_content :: "browser \<Rightarrow> node \<Rightarrow> page \<times> nat" where
  "generateCues_content env d =
     (let e0 = [Announce ''Starting section cues generation. Please wait.'']
      in if \<not> present (LanguageModel env)
         then sectionCuesFailed d e0 ''Language Model API not found. Need Chrome 138+ with flags enabled.''
         else
           (case availability (LanguageModel env) of
              Inl m \<Rightarrow> sectionCuesFailed d (e0 @ [Availability]) m
            | Inr avail \<Rightarrow>
                (if avail = ''no''
                 then sectionCuesFailed d (e0 @ [Availability])
                        ''Language Model API is unavailable. Download model at chrome://components''
                 else
                   (let e1 = e0 @ [Availability] @
                          (if avail = ''after-download''
                           then [Announce ''AI model needs to be downloaded. This may take a few minutes.'']
                           else []);
                        headings = headingsOf d
                    in if length headings = 0
                       then (\<lparr>dom = d,
                              events = e1 @ [Announce ''No section headings found on this page.'']\<rparr>, 0)
                       else
                         (let e2 = e1 @ [Announce (''Generating contextual cues for ''
                                           @ showNat (length headings)
                                           @ '' sections. This will take a moment.'')]
                          in case create (LanguageModel env) e2 of
                               Some m \<Rightarrow> sectionCuesFailed d (e2 @ [CreateFailed]) m
                             | None \<Rightarrow>
                                 (let session = nextSession e2
                                  in case describeHeadings env session (length headings) 0 headings
                                            (\<lparr>dom = d, events = e2 @ [Create session]\<rparr>, 0) of
                                       (p, successCount) \<Rightarrow>
                                         (p\<lparr>events := events p @
                                             [Destroy session,
                                              Announce (''Cognitive cues complete. Generated descriptions for ''
                                                @ showNat successCount
                                                @ '' sections. Navigate to headings to hear them.'')]\<rparr>,
                                          successCount)))))))"

section \<open>The announcement channel\<close>








section \<open>Properties of a run\<close>

text \<open>
  The section of a heading as the segmentation rule describes it: the following element
  siblings up to the first heading of the same or a higher rank, without the tags that
  are skipped and the siblings without text, each text followed by a space.
\<close>

definition sectionEnds :: "nat option \<Rightarrow> node \<Rightarrow> bool" where
  "sectionEnds lvl n =
     (tagName n \<noteq> [] \<and> isHeadingTag (tagName n) \<and> numLe (parseLevel (tagName n)) lvl)"

definition ownedSiblings :: "nat option \<Rightarrow> node list \<Rightarrow> node list" where
  "ownedSiblings lvl sibs = takeWhile (\<lambda>n. \<not> sectionEnds lvl n) (filter isElement sibs)"

definition contributes :: "(node \<Rightarrow> string) \<Rightarrow> node \<Rightarrow> bool" where
  "contributes it n = (tagName n \<noteq> [] \<and> \<not> skippedTag (tagName n) \<and> trim (textOf it n) \<noteq> [])"

definition sectionText :: "(node \<Rightarrow> string) \<Rightarrow> nat option \<Rightarrow> node list \<Rightarrow> string" where
  "sectionText it lvl sibs =
     concat (map (\<lambda>n. textOf it n @ '' '') (filter (contributes it) (ownedSiblings lvl sibs)))"

text \<open>The sessions that are created and not yet destroyed after a list of events.\<close>

fun liveAfter :: "event list \<Rightarrow> nat list \<Rightarrow> nat list" where
  "liveAfter [] live = live"
| "liveAfter (Create n # es) live = liveAfter es (live @ [n])"
| "liveAfter (Destroy n # es) live = liveAfter es (removeAll n live)"
| "liveAfter (e # es) live = liveAfter es live"

definition liveSessions :: "event list \<Rightarrow> nat list" where
  "liveSessions es = liveAfter es []"

text \<open>The announcements made by the error handlers of the four runs.\<close>

definition failureTexts :: "string list" where
  "failureTexts =
     [''AI Overview failed. Error: '', ''Section summaries failed. Error: '',
      ''Label fixing failed. Error: '', ''Section cues failed. Error: '']"

fun isErrorAnnouncement :: "event \<Rightarrow> bool" where
  "isErrorAnnouncement (Announce x) = (\<exists>f \<in> set failureTexts. prefix f x)"
| "isErrorAnnouncement (AnnounceLater ms x) = (\<exists>f \<in> set failureTexts. prefix f x)"
| "isErrorAnnouncement e = False"

definition abortedBeforeGeneration :: "event list \<Rightarrow> bool" where
  "abortedBeforeGeneration es =
     (length (filter isErrorAnnouncement es) = 1 \<and> filter isRun es = [] \<and> filter isCreate es = [])"

text \<open>
  Pacing: reading the events in order, every generation call finds a delay of \<open>ms\<close>
  behind it since the call before (\<open>slept\<close> tells whether one was seen already).
\<close>

fun paced :: "nat \<Rightarrow> bool \<Rightarrow> event list \<Rightarrow> bool" where
  "paced ms slept [] = True"
| "paced ms slept (Sleep n # es) = paced ms (slept \<or> n = ms) es"
| "paced ms slept (Run s x # es) = (slept \<and> paced ms False es)"
| "paced ms slept (e # es) = paced ms slept es"

fun sleptAfter :: "nat \<Rightarrow> bool \<Rightarrow> event list \<Rightarrow> bool" where
  "sleptAfter ms slept [] = slept"
| "sleptAfter ms slept (Sleep n # es) = sleptAfter ms (slept \<or> n = ms) es"
| "sleptAfter ms slept (Run s x # es) = sleptAfter ms False es"
| "sleptAfter ms slept (e # es) = sleptAfter ms slept es"

text \<open>The processed marker of a heading, read the way \<open>generateCues\<close> reads it.\<close>

definition marked :: "node \<Rightarrow> nat \<Rightarrow> bool" where
  "marked d h =
     (case findPlace d h of
        None \<Rightarrow> False
      | Some (heading, sibs, anc) \<Rightarrow> hasAttribute heading summaryMarker)"

definition markedHeadings :: "node \<Rightarrow> nat set" where
  "markedHeadings d = {h \<in> set (headingsOf d). marked d h}"

fun notesAfter :: "nat \<Rightarrow> event list \<Rightarrow> nat" where
  "notesAfter h [] = 0"
| "notesAfter h (InsertAfter i box # es) = (if i = h then Suc (notesAfter h es) else notesAfter h es)"
| "notesAfter h (e # es) = notesAfter h es"

text \<open>The identity, tag and attributes of every element, in document order.\<close>

definition outline :: "node \<Rightarrow> (nat \<times> string \<times> (string \<times> string) list) list" where
  "outline d = map (\<lambda>n. (nid n, tagName n, attrs n)) (elementsOf d)"

text \<open>A heading that is up for a summary, with a section of \<open>n\<close> characters.\<close>

definition awaitsSummary :: "browser \<Rightarrow> node \<Rightarrow> nat \<Rightarrow> nat \<Rightarrow> bool" where
  "awaitsSummary env d h n =
     (case findPlace d h of
        None \<Rightarrow> False
      | Some (heading, sibs, anc) \<Rightarrow>
          trim (innerText env heading) \<noteq> [] \<and> length (trim (innerText env heading)) \<le> 200
          \<and> \<not> hasAttribute heading summaryMarker
          \<and> length (sectionOfPlace (innerText env) (heading, sibs, anc)) = n)"

fun runInputs :: "event list \<Rightarrow> string list" where
  "runInputs [] = []"
| "runInputs (Run s x # es) = x # runInputs es"
| "runInputs (e # es) = runInputs es"

section \<open>Sample pages and capabilities\<close>

definition readyCapability :: "(event list \<Rightarrow> string \<Rightarrow> string + string) \<Rightarrow> capability" where
  "readyCapability r =
     \<lparr>present = True, availability = Inr ''available'', create = (\<lambda>es. None),
      progress = (\<lambda>es. []), run = r\<rparr>"

definition unavailableCapability :: capability where
  "unavailableCapability =
     \<lparr>present = True, availability = Inr ''no'', create = (\<lambda>es. None),
      progress = (\<lambda>es. []), run = (\<lambda>es x. Inr ''A summary.'')\<rparr>"

text \<open>A browser in which the rendered text of an element is its \<open>textContent\<close>.\<close>

definition textBrowser :: "capability \<Rightarrow> browser" where
  "textBrowser c =
     \<lparr>innerText = textContent, hrefOf = (\<lambda>n. getAttribute n ''href''),
      nullMessage = ''document.body is null'', Summarizer = c, LanguageModel = c\<rparr>"

definition twoSections :: node where
  "twoSections =
     Element 0 ''HTML'' []
       [Element 1 ''BODY'' []
          [Element 2 ''DIV'' []
             [Element 3 ''H2'' [] [Text ''Intro''],
              Element 4 ''P'' [] [Text ''Short intro.''],
              Element 5 ''H2'' [] [Text ''Details''],
              Element 6 ''P'' [] [Text ''Text of the details section.'']]]]"

definition guideSiblings :: "node list" where
  "guideSiblings =
     [Element 3 ''P'' [] [Text ''Install the extension and open any long article.''],
      Element 4 ''H3'' [] [Text ''Notes''],
      Element 5 ''NAV'' [] [Text ''Back to top''],
      Element 6 ''P'' [] [Text ''The panel opens from the toolbar.''],
      Element 7 ''H2'' [] [Text ''Usage''],
      Element 8 ''P'' [] [Text ''Press a button and wait for the summary.'']]"

definition guidePage :: node where
  "guidePage =
     Element 0 ''HTML'' []
       [Element 1 ''BODY'' [] (Element 2 ''H2'' [] [Text ''Setup''] # guideSiblings)]"

definition threeSections :: node where
  "threeSections =
     Element 0 ''HTML'' []
       [Element 1 ''BODY'' []
          [Element 2 ''SECTION'' []
             [Element 3 ''H2'' [] [Text ''Intro''],
              Element 4 ''P'' [] [Text ''A short welcome note for a visitor.'']],
           Element 5 ''SECTION'' []
             [Element 6 ''H2'' [] [Text ''More''],
              Element 7 ''P'' [] [Text ''Nothing here yet'']],
           Element 8 ''SECTION'' []
             [Element 9 ''H2'' [] [Text ''Details''],
              Element 10 ''P'' [] [Text ''The details section explains how the reader opens the panel, picks one of the three commands and waits while the page is processed. Each result is written into the page and read out by a screen reader'']]]]"

definition mixedOrder :: node where
  "mixedOrder =
     Element 0 ''HTML'' []
       [Element 1 ''BODY'' []
          [Element 2 ''DIV'' []
             [Element 3 ''H2'' [] [Text ''News''],
              Element 4 ''H1'' [] [Text ''Our site'']],
           Element 5 ''SECTION'' []
             [Element 6 ''H2'' [] [Text ''About''],
              Element 7 ''P'' [] [Text ''We build tools that make pages easier to follow with a screen reader.'']]]]"

definition shopPage :: node where
  "shopPage =
     Element 0 ''HTML'' []
       [Element 1 ''BODY'' []
          [Element 2 ''H1'' [] [Text ''Shop''],
           Element 3 ''A'' [(''href'', ''/a''), (''aria-label'', '' '')] [Text ''here''],
           Element 4 ''A'' [(''href'', ''/b'')] [Text '' Read More ''],
           Element 5 ''BUTTON'' [(''aria-label'', ''Close dialog'')] [Text ''x''],
           Element 6 ''BUTTON'' [] [Text ''OK''],
           Element 7 ''A'' [(''href'', ''/c'')] [Text ''Pricing'']]]"

text \<open>The bounds on a label that is written as an accessible name.\<close>

fun labelWithinBounds :: "event \<Rightarrow> bool" where
  "labelWithinBounds (SetAttribute h k v) =
     (k = ''aria-label'' \<longrightarrow> v \<noteq> [] \<and> length v \<le> 60 \<and> length (split (CHR '' '') v) \<le> 8)"
| "labelWithinBounds e = True"

definition blankLabelLink :: node where
  "blankLabelLink = Element 3 ''A'' [(''href'', ''/a''), (''aria-label'', '' '')] [Text ''here'']"

definition closeButton :: node where
  "closeButton = Element 5 ''BUTTON'' [(''aria-label'', ''Close dialog'')] [Text ''x'']"

text \<open>A response in quotes and with a full stop.\<close>

definition quotedReply :: string where
  "quotedReply = [CHR 0x22] @ ''Open the linked page.'' @ [CHR 0x22]"

text \<open>
  Separation of the generation calls of a run: there is a delay of \<open>ms\<close> before the
  first call and between any two calls.
\<close>

definition separatedBy :: "nat \<Rightarrow> event list \<Rightarrow> bool" where
  "separatedBy ms es =
     ((\<forall>a s x c. es = a @ Run s x # c \<longrightarrow> Sleep ms \<in> set a)
      \<and> (\<forall>a s x b s' x' c. es = a @ Run s x # b @ Run s' x' # c \<longrightarrow> Sleep ms \<in> set b))"

fun isLifecycle :: "event \<Rightarrow> bool" where
  "isLifecycle (Create n) = True"
| "isLifecycle (Destroy n) = True"
| "isLifecycle e = False"

text \<open>A browser whose capability is available and rejects every generation call.\<close>

definition crashingBrowser :: browser where
  "crashingBrowser = textBrowser (readyCapability (\<lambda>es x. Inl ''The model crashed.''))"

text \<open>A browser whose capability is available and answers every call with a summary.\<close>

definition summarizingBrowser :: browser where
  "summarizingBrowser = textBrowser (readyCapability (\<lambda>es x. Inr ''A summary.''))"

text \<open>The document after a summary \<open>y\<close> was accepted for the heading \<open>h\<close>.\<close>

definition afterSummary :: "node \<Rightarrow> nat \<Rightarrow> string \<Rightarrow> node" where
  "afterSummary d h y =
     insertAfter h (sectionSummaryBox (freshId (setAttribute h summaryMarker ''true'' d)) y)
       (setAttribute h summaryMarker ''true'' d)"

text \<open>The outline entry of an element after the heading \<open>h\<close> was marked.\<close>

definition markEntry :: "nat \<Rightarrow> nat \<times> string \<times> (string \<times> string) list
                          \<Rightarrow> nat \<times> string \<times> (string \<times> string) list" where
  "markEntry h e =
     (fst e, fst (snd e),
      if fst e = h then setAttr summaryMarker ''true'' (snd (snd e)) else snd (snd e))"

text \<open>A browser whose capability answers every call with a longer summary.\<close>

definition readingBrowser :: browser where
  "readingBrowser = textBrowser (readyCapability (\<lambda>es x. Inr ''Tools for easier reading of pages.''))"

text \<open>The attributes of the first element with the identity \<open>h\<close> in an outline.\<close>

definition attrsAt :: "(nat \<times> string \<times> (string \<times> string) list) list \<Rightarrow> nat
                        \<Rightarrow> (string \<times> string) list option" where
  "attrsAt ol h = map_option (\<lambda>e. snd (snd e)) (find (\<lambda>e. fst e = h) ol)"

text \<open>A page whose heading has no siblings and whose parent is followed by a long text.\<close>

definition overlongPage :: node where
  "overlongPage =
     Element 0 ''HTML'' []
       [Element 1 ''BODY'' []
          [Element 2 ''DIV'' [] [Element 3 ''H2'' [] [Text ''Terms'']],
           Element 4 ''DIV'' [] [Element 5 ''P'' [] [Text (replicate 3100 (CHR ''a''))]]]]"

section \<open>Section content: what the sibling walk returns\<close>

lemma dropWhile_keeps: "(\<exists>x \<in> set (dropWhile P s). \<not> P x) \<longleftrightarrow> (\<exists>x \<in> set s. \<not> P x)"
  by (induction s) auto

lemma trim_nonempty_iff: "trim s \<noteq> [] \<longleftrightarrow> (\<exists>c \<in> set s. \<not> isWhite c)"
proof -
  have "trim s \<noteq> [] \<longleftrightarrow> (\<exists>x \<in> set (rev (dropWhile isWhite s)). \<not> isWhite x)"
    unfolding trim_def by (simp add: dropWhile_eq_Nil_conv)
  also have "\<dots> \<longleftrightarrow> (\<exists>x \<in> set (dropWhile isWhite s). \<not> isWhite x)" by simp
  also have "\<dots> \<longleftrightarrow> (\<exists>c \<in> set s. \<not> isWhite c)" by (rule dropWhile_keeps)
  finally show ?thesis .
qed

lemma length_trim_le: "length (trim s) \<le> length s"
proof -
  have "length (dropWhile isWhite (rev (dropWhile isWhite s))) \<le> length (rev (dropWhile isWhite s))"
    by (rule length_dropWhile_le)
  moreover have "length (dropWhile isWhite s) \<le> length s"
    by (rule length_dropWhile_le)
  ultimately show ?thesis unfolding trim_def by simp
qed

lemma sectionText_Nil: "sectionText it lvl [] = []"
  by (simp add: sectionText_def ownedSiblings_def)

lemma sectionText_Text: "sectionText it lvl (Text s # rest) = sectionText it lvl rest"
  by (simp add: sectionText_def ownedSiblings_def)

lemma sectionText_Element:
  "sectionText it lvl (Element i t a cs # rest) =
     (if sectionEnds lvl (Element i t a cs) then []
      else (if contributes it (Element i t a cs) then textOf it (Element i t a cs) @ '' '' else [])
           @ sectionText it lvl rest)"
  by (simp add: sectionText_def ownedSiblings_def)

lemma take_cut: "length c1 > n \<Longrightarrow> take n c1 = take n (c1 @ r)"
  by simp

lemma siblingWalk_take:
  "length c \<le> 3000 \<Longrightarrow> siblingWalk it lvl c sibs = take 3000 (c @ sectionText it lvl sibs)"
proof (induction it lvl c sibs rule: siblingWalk.induct)
  case (1 it lvl content)
  then show ?case by (simp add: sectionText_Nil)
next
  case (2 it lvl content s rest)
  then show ?case by (simp add: sectionText_Text)
next
  case (3 it lvl content i t a cs rest)
  let ?e = "Element i t a cs"
  show ?case
  proof (cases "sectionEnds lvl ?e")
    case True
    then show ?thesis using 3(2) by (simp add: sectionText_Element sectionEnds_def)
  next
    case False
    define c1 where "c1 = (if contributes it ?e then content @ textOf it ?e @ '' '' else content)"
    have st: "content @ sectionText it lvl (?e # rest) = c1 @ sectionText it lvl rest"
      using False by (simp add: sectionText_Element c1_def)
    have ne: "\<not> (t \<noteq> [] \<and> isHeadingTag t \<and> numLe (parseLevel t) lvl)"
      using False by (simp add: sectionEnds_def)
    have walk: "siblingWalk it lvl content (?e # rest) =
        (if length c1 > 3000 then take 3000 c1 else siblingWalk it lvl c1 rest)"
      apply (subst siblingWalk.simps)
      apply (simp only: ne if_False)
      apply (simp add: c1_def contributes_def substring0_def Let_def)
      done
    show ?thesis
    proof (cases "length c1 > 3000")
      case True
      then show ?thesis unfolding walk st by simp
    next
      case long: False
      have "siblingWalk it lvl c1 rest = take 3000 (c1 @ sectionText it lvl rest)"
        using 3(1)[OF ne c1_def[unfolded contributes_def, simplified]] long
        by simp
      then show ?thesis unfolding walk st using long by simp
    qed
  qed
qed

lemma sectionText_nonwhite:
  "sectionText it lvl sibs \<noteq> [] \<Longrightarrow> \<exists>c \<in> set (sectionText it lvl sibs). \<not> isWhite c"
proof -
  assume "sectionText it lvl sibs \<noteq> []"
  then obtain n where n: "n \<in> set (filter (contributes it) (ownedSiblings lvl sibs))"
    unfolding sectionText_def by (cases "filter (contributes it) (ownedSiblings lvl sibs)") auto
  then have "trim (textOf it n) \<noteq> []" by (simp add: contributes_def)
  then obtain c where c: "c \<in> set (textOf it n)" "\<not> isWhite c"
    unfolding trim_nonempty_iff by blast
  have "c \<in> set (sectionText it lvl sibs)"
    unfolding sectionText_def using n c(1) by auto
  with c(2) show ?thesis by blast
qed



text \<open>
  C1, as stated, fails: when the siblings of the heading give fewer than 50 characters
  and the parent has no later siblings, the whole text of the parent is returned, with
  the text of the next section of the same rank in it.
\<close>

theorem getSectionContent_includes_next_section:
  "getSectionContent textContent twoSections 3 = ''IntroShort intro.DetailsText of the details section.''
   \<and> sublist (textContent (Element 6 ''P'' [] [Text ''Text of the details section.'']))
         (getSectionContent textContent twoSections 3)"
proof -
  have v: "getSectionContent textContent twoSections 3
             = ''IntroShort intro.Details'' @ ''Text of the details section.'' @ []"
    by (simp add: getSectionContent_def findPlace_def twoSections_def sectionOfPlace_def
        parseLevel_def numLe_def isHeadingTag_def skippedTag_def textOf_def orElse_def
        trim_def isWhite_def substring0_def Let_def)
  have tc: "textContent (Element 6 ''P'' [] [Text ''Text of the details section.''])
              = ''Text of the details section.''"
    by simp
  have s: "sublist ''Text of the details section.''
             (''IntroShort intro.Details'' @ ''Text of the details section.'' @ [])"
    by (rule sublist_appendI)
  show ?thesis using s unfolding v tc by simp
qed

text \<open>
  C1, amended: when the texts of the heading's following element siblings, up to the
  first sibling heading of the same or a higher rank, come to at least 50 characters,
  \<open>getSectionContent\<close> returns the first 3000 characters of exactly that text, trimmed.
  The result has at most 3000 characters, holds nothing from that sibling heading onwards,
  and is not empty when the text was not cut at 3000 characters.
\<close>

theorem getSectionContent_own_section:
  assumes "findPlace doc h = Some (heading, sibs, anc)"
    and "50 \<le> length (sectionText it (parseLevel (tagName heading)) sibs)"
  shows "getSectionContent it doc h =
           trim (take 3000 (sectionText it (parseLevel (tagName heading)) sibs))
         \<and> length (getSectionContent it doc h) \<le> 3000
         \<and> (length (sectionText it (parseLevel (tagName heading)) sibs) \<le> 3000
              \<longrightarrow> getSectionContent it doc h \<noteq> [])"
proof -
  let ?st = "sectionText it (parseLevel (tagName heading)) sibs"
  have w: "siblingWalk it (parseLevel (tagName heading)) [] sibs = take 3000 ?st"
    using siblingWalk_take[of "[]"] by simp
  have nl: "\<not> length (siblingWalk it (parseLevel (tagName heading)) [] sibs) < 50"
    using assms(2) by (simp add: w)
  have "getSectionContent it doc h = trim (siblingWalk it (parseLevel (tagName heading)) [] sibs)"
    using assms(1) nl
    by (cases anc) (auto simp: getSectionContent_def sectionOfPlace_def Let_def)
  then have g: "getSectionContent it doc h = trim (take 3000 ?st)"
    by (simp only: w)
  have b: "length (trim (take 3000 ?st)) \<le> 3000"
    using length_trim_le[of "take 3000 ?st"] by simp
  have ne: "length ?st \<le> 3000 \<longrightarrow> trim (take 3000 ?st) \<noteq> []"
  proof
    assume "length ?st \<le> 3000"
    then have "take 3000 ?st = ?st" by simp
    moreover have "?st \<noteq> []" using assms(2) by auto
    ultimately show "trim (take 3000 ?st) \<noteq> []"
      using sectionText_nonwhite[of it _ sibs] by (simp add: trim_nonempty_iff)
  qed
  show ?thesis using g b ne by simp
qed


theorem getSectionContent_own_section_witness:
  "findPlace guidePage 2 =
     Some (Element 2 ''H2'' [] [Text ''Setup''], guideSiblings,
           [(Element 1 ''BODY'' [] (Element 2 ''H2'' [] [Text ''Setup''] # guideSiblings), []),
            (guidePage, [])])
   \<and> 50 \<le> length (sectionText textContent (parseLevel (tagName (Element 2 ''H2'' [] [Text ''Setup'']))) guideSiblings)
   \<and> getSectionContent textContent guidePage 2 =
       ''Install the extension and open any long article. Notes The panel opens from the toolbar.''
   \<and> length (getSectionContent textContent guidePage 2) \<le> 3000
   \<and> getSectionContent textContent guidePage 2 \<noteq> []"
proof -
  have p: "findPlace guidePage 2 =
     Some (Element 2 ''H2'' [] [Text ''Setup''], guideSiblings,
           [(Element 1 ''BODY'' [] (Element 2 ''H2'' [] [Text ''Setup''] # guideSiblings), []),
            (guidePage, [])])"
    by (simp add: findPlace_def guidePage_def)
  have st: "sectionText textContent (parseLevel (tagName (Element 2 ''H2'' [] [Text ''Setup'']))) guideSiblings
      = ''Install the extension and open any long article. Notes The panel opens from the toolbar. ''"
    by (simp add: sectionText_def ownedSiblings_def guideSiblings_def sectionEnds_def contributes_def
        parseLevel_def numLe_def isHeadingTag_def skippedTag_def textOf_def orElse_def
        trim_def isWhite_def)
  have l: "50 \<le> length (sectionText textContent (parseLevel (tagName (Element 2 ''H2'' [] [Text ''Setup'']))) guideSiblings)"
    unfolding st by simp
  have t: "trim ''Install the extension and open any long article. Notes The panel opens from the toolbar. ''
      = ''Install the extension and open any long article. Notes The panel opens from the toolbar.''"
    by (simp add: trim_def isWhite_def)
  show ?thesis
    using getSectionContent_own_section[OF p l] p l
    unfolding st by (simp add: t)
qed

section \<open>Selection of ambiguous controls\<close>

text \<open>
  C6, as stated, fails: a link whose \<open>aria-label\<close> is a single space has a non-empty
  \<open>aria-label\<close> and is selected all the same, since the label is trimmed before it is
  tested.
\<close>

theorem blank_label_is_selected:
  "hasAttribute blankLabelLink ''aria-label''
   \<and> getAttribute blankLabelLink ''aria-label'' \<noteq> []
   \<and> blankLabelLink \<in> set (elementsToFix textContent shopPage)"
  by (simp add: blankLabelLink_def hasAttribute_def getAttribute_def elementsToFix_def
      linksAndButtons_def shopPage_def needsFixing_def hasLabel_def orElse_def trim_def isWhite_def
      toLowerCase_def lowerChar_def ambiguousTerms_def Let_def)

text \<open>
  C6, amended: a link or button is selected for label repair if and only if it has no
  \<open>aria-label\<close> that is non-empty after trimming and its trimmed, lower-cased text is in
  the fixed set, or shorter than 3 characters, or empty. A control whose \<open>aria-label\<close>
  is non-empty after trimming is never selected, whatever its text, and the selected
  controls are in document order.
\<close>

theorem elementsToFix_selection:
  "(el \<in> set (elementsToFix it d) \<longleftrightarrow>
      el \<in> set (linksAndButtons d)
      \<and> \<not> (hasAttribute el ''aria-label'' \<and> trim (getAttribute el ''aria-label'') \<noteq> [])
      \<and> (toLowerCase (trim (textOf it el))
            \<in> {''click here'', ''here'', ''learn more'', ''read more'', ''more'',
                ''continue'', ''next'', ''go'', ''view'', ''see''}
          \<or> length (toLowerCase (trim (textOf it el))) < 3
          \<or> toLowerCase (trim (textOf it el)) = []))
   \<and> (hasAttribute el ''aria-label'' \<and> trim (getAttribute el ''aria-label'') \<noteq> []
        \<longrightarrow> el \<notin> set (elementsToFix it d))
   \<and> subseq (elementsToFix it d) (elementsOf d)"
proof -
  have sel: "needsFixing it el \<longleftrightarrow>
      \<not> (hasAttribute el ''aria-label'' \<and> trim (getAttribute el ''aria-label'') \<noteq> [])
      \<and> (toLowerCase (trim (textOf it el))
            \<in> {''click here'', ''here'', ''learn more'', ''read more'', ''more'',
                ''continue'', ''next'', ''go'', ''view'', ''see''}
          \<or> length (toLowerCase (trim (textOf it el))) < 3
          \<or> toLowerCase (trim (textOf it el)) = [])"
    unfolding needsFixing_def hasLabel_def textOf_def ambiguousTerms_def Let_def by simp
  have ord: "subseq (elementsToFix it d) (elementsOf d)"
    unfolding elementsToFix_def linksAndButtons_def
    by (rule subseq_order.trans[OF subseq_filter_left subseq_filter_left])
  have mem: "el \<in> set (elementsToFix it d) \<longleftrightarrow> el \<in> set (linksAndButtons d) \<and> needsFixing it el"
    by (simp add: elementsToFix_def)
  show ?thesis using sel ord mem by blast
qed

theorem elementsToFix_selection_witness:
  "hasAttribute closeButton ''aria-label''
   \<and> trim (getAttribute closeButton ''aria-label'') \<noteq> []
   \<and> closeButton \<in> set (linksAndButtons shopPage)
   \<and> closeButton \<notin> set (elementsToFix textContent shopPage)"
proof -
  have a: "hasAttribute closeButton ''aria-label'' \<and> trim (getAttribute closeButton ''aria-label'') \<noteq> []"
    by (simp add: closeButton_def hasAttribute_def getAttribute_def trim_def isWhite_def)
  have b: "closeButton \<in> set (linksAndButtons shopPage)"
    by (simp add: closeButton_def linksAndButtons_def shopPage_def)
  show ?thesis using elementsToFix_selection[of closeButton textContent shopPage] a b by blast
qed

section \<open>Labels written by the label repair\<close>

lemma length_dropLastIf: "length (dropLastIf P s) \<le> length s"
  by (simp add: dropLastIf_def)

lemma cleanLabel_short: "length (cleanLabel r) \<le> 60"
  by (simp add: cleanLabel_def substring0_def)

lemma fixElement_labels:
  "list_all labelWithinBounds (events (fst st)) \<Longrightarrow>
   list_all labelWithinBounds (events (fst (fixElement env session len index h st)))"
  by (cases st)
     (auto simp: fixElement_def Let_def acceptLabel_def cleanLabel_short
           split: option.splits sum.splits prod.splits)

lemma fixElements_labels:
  "list_all labelWithinBounds (events (fst st)) \<Longrightarrow>
   list_all labelWithinBounds (events (fst (fixElements env session len index hs st)))"
  by (induction hs arbitrary: index st) (simp_all add: fixElement_labels)

lemma fixContextLabels_labels:
  "list_all labelWithinBounds (events (fst (fixContextLabels env d)))"
proof -
  have loop: "\<And>es s n hs. list_all labelWithinBounds es \<Longrightarrow>
      list_all labelWithinBounds (events (fst (fixElements env s n 0 hs (\<lparr>dom = d, events = es\<rparr>, 0))))"
    by (rule fixElements_labels) simp
  show ?thesis
    unfolding fixContextLabels_def labelsFailed_def Let_def
    by (simp add: split_beta loop split: sum.splits option.splits)
qed


text \<open>
  C10: every \<open>aria-label\<close> that \<open>fixContextLabels\<close> writes has at most 60 characters
  and at most 8 space-separated words (and is not empty): the label is cut to 60
  characters before the word count is tested.
\<close>

theorem written_labels_are_short:
  "SetAttribute h ''aria-label'' v \<in> set (events (fst (fixContextLabels env d)))
   \<Longrightarrow> length v \<le> 60 \<and> length (split (CHR '' '') v) \<le> 8 \<and> v \<noteq> []"
  using fixContextLabels_labels[of env d]
  by (auto simp: list_all_iff dest!: bspec)

theorem written_labels_are_short_witness:
  "SetAttribute 6 ''aria-label'' ''Open the linked page''
     \<in> set (events (fst (fixContextLabels
          (textBrowser (readyCapability (\<lambda>es x. Inr quotedReply))) shopPage)))
   \<and> length ''Open the linked page'' \<le> 60
   \<and> length (split (CHR '' '') ''Open the linked page'') \<le> 8"
proof -
  have m: "SetAttribute 6 ''aria-label'' ''Open the linked page''
     \<in> set (events (fst (fixContextLabels
          (textBrowser (readyCapability (\<lambda>es x. Inr quotedReply))) shopPage)))"
    by code_simp
  show ?thesis using written_labels_are_short[OF m] m by simp
qed

section \<open>Announcements\<close>


section \<open>Runs against an unavailable capability\<close>

text \<open>
  C5: when the availability check of the capability answers \<open>"no"\<close>, the value the code
  tests for an unavailable backend, each of the runs makes exactly one error announcement
  and no generation call (and creates no session).
\<close>

theorem unavailable_aborts:
  "(present (Summarizer env) \<and> availability (Summarizer env) = Inr ''no'' \<longrightarrow>
      abortedBeforeGeneration (events (generateOverview env d))
      \<and> abortedBeforeGeneration (events (fst (generateCues env d))))
   \<and> (present (LanguageModel env) \<and> availability (LanguageModel env) = Inr ''no'' \<longrightarrow>
      abortedBeforeGeneration (events (fst (fixContextLabels env d)))
      \<and> abortedBeforeGeneration (events (fst (generateCues_content env d))))"
  by (simp add: abortedBeforeGeneration_def generateOverview_def generateCues_def
      fixContextLabels_def generateCues_content_def overviewFailed_def cuesFailed_def
      labelsFailed_def sectionCuesFailed_def failureTexts_def errorMsg_def orElse_def)

theorem unavailable_aborts_witness:
  "present (Summarizer (textBrowser unavailableCapability))
   \<and> availability (Summarizer (textBrowser unavailableCapability)) = Inr ''no''
   \<and> present (LanguageModel (textBrowser unavailableCapability))
   \<and> availability (LanguageModel (textBrowser unavailableCapability)) = Inr ''no''
   \<and> abortedBeforeGeneration (events (generateOverview (textBrowser unavailableCapability) threeSections))
   \<and> abortedBeforeGeneration (events (fst (generateCues (textBrowser unavailableCapability) threeSections)))
   \<and> abortedBeforeGeneration (events (fst (fixContextLabels (textBrowser unavailableCapability) threeSections)))
   \<and> abortedBeforeGeneration (events (fst (generateCues_content (textBrowser unavailableCapability) threeSections)))"
proof -
  have a: "present (Summarizer (textBrowser unavailableCapability))
           \<and> availability (Summarizer (textBrowser unavailableCapability)) = Inr ''no''"
    by (simp add: textBrowser_def unavailableCapability_def)
  have b: "present (LanguageModel (textBrowser unavailableCapability))
           \<and> availability (LanguageModel (textBrowser unavailableCapability)) = Inr ''no''"
    by (simp add: textBrowser_def unavailableCapability_def)
  show ?thesis
    using unavailable_aborts[of "textBrowser unavailableCapability" threeSections] a b by blast
qed

section \<open>Sessions\<close>

text \<open>
  The label repair and the section cues of \<open>content.js\<close> release their session in a
  \<open>finally\<close> block: on every path the run creates no session, or one session that it
  destroys once.
\<close>

lemma fixElement_lifecycle:
  "filter isLifecycle (events (fst (fixElement env session len index h st)))
     = filter isLifecycle (events (fst st))"
  by (cases st)
     (auto simp: fixElement_def Let_def split: option.splits sum.splits prod.splits)

lemma fixElements_lifecycle:
  "filter isLifecycle (events (fst (fixElements env session len index hs st)))
     = filter isLifecycle (events (fst st))"
  by (induction hs arbitrary: index st) (simp_all add: fixElement_lifecycle)

lemma fixContextLabels_releases_once:
  "filter isLifecycle (events (fst (fixContextLabels env d))) \<in> {[], [Create 0, Destroy 0]}"
proof (cases "present (LanguageModel env)")
  case False
  then show ?thesis by (simp add: fixContextLabels_def labelsFailed_def)
next
  case p: True
  show ?thesis
  proof (cases "availability (LanguageModel env)")
    case (Inl m)
    then show ?thesis using p by (simp add: fixContextLabels_def labelsFailed_def)
  next
    case a: (Inr avail)
    show ?thesis
    proof (cases "avail = ''no''")
      case True
      then show ?thesis using p a by (simp add: fixContextLabels_def labelsFailed_def)
    next
      case n: False
      show ?thesis using p a n
        by (simp add: fixContextLabels_def labelsFailed_def Let_def split_beta fixElements_lifecycle nextSession_def
            split: option.splits)
    qed
  qed
qed

lemma describeHeading_lifecycle:
  "filter isLifecycle (events (fst (describeHeading env session len index h st)))
     = filter isLifecycle (events (fst st))"
  by (cases st)
     (auto simp: describeHeading_def Let_def split: option.splits sum.splits prod.splits)

lemma describeHeadings_lifecycle:
  "filter isLifecycle (events (fst (describeHeadings env session len index hs st)))
     = filter isLifecycle (events (fst st))"
  by (induction hs arbitrary: index st) (simp_all add: describeHeading_lifecycle)

lemma generateCues_content_releases_once:
  "filter isLifecycle (events (fst (generateCues_content env d))) \<in> {[], [Create 0, Destroy 0]}"
proof (cases "present (LanguageModel env)")
  case False
  then show ?thesis by (simp add: generateCues_content_def sectionCuesFailed_def)
next
  case p: True
  show ?thesis
  proof (cases "availability (LanguageModel env)")
    case (Inl m)
    then show ?thesis using p by (simp add: generateCues_content_def sectionCuesFailed_def)
  next
    case a: (Inr avail)
    show ?thesis
    proof (cases "avail = ''no''")
      case True
      then show ?thesis using p a by (simp add: generateCues_content_def sectionCuesFailed_def)
    next
      case n: False
      show ?thesis using p a n
        by (simp add: generateCues_content_def sectionCuesFailed_def Let_def split_beta describeHeadings_lifecycle nextSession_def
            split: option.splits)
    qed
  qed
qed

lemma crashing_summaries_events:
  "events (fst (generateCues crashingBrowser threeSections)) =
     [Announce ''Starting section summaries generation. Please wait.'', Availability,
      Announce ''Generating summaries for 3 sections. This will take a moment.'',
      Sleep 1000, Announce ''Processing section 1 of 3: Intro'', Create 0,
      Run 0 ''IntroA short welcome note for a visitor.'',
      Sleep 1000, Sleep 1000, Announce ''Processing section 3 of 3: Details'', Create 1,
      Run 1 ''The details section explains how the reader opens the panel, picks one of the three commands and waits while the page is processed. Each result is written into the page and read out by a screen reader'',
      Announce ''Section summaries complete. Generated 0 summaries. Navigate the page to see them.'']"
  by code_simp


text \<open>
  C3 fails on the code: in \<open>generateOverview\<close> the call of \<open>destroy\<close> follows the
  call of \<open>summarize\<close> without a \<open>finally\<close>; when \<open>summarize\<close> rejects, the run
  ends through its error handler and the session it created is never destroyed.
\<close>

theorem overview_session_not_released:
  "events (generateOverview crashingBrowser threeSections) =
     [Announce ''Starting AI overview generation. Please wait.'', Availability,
      Announce ''Generating summary. This may take a moment.'', Create 0,
      Run 0 ''IntroA short welcome note for a visitor.MoreNothing here yetDetailsThe details section explains how the reader opens the panel, picks one of the three commands and waits while the page is processed. Each result is written into the page and read out by a screen reader'',
      AnnounceLater 500 ''AI Overview failed. Error: The model crashed.'']
   \<and> count_list (events (generateOverview crashingBrowser threeSections)) (Create 0) = 1
   \<and> count_list (events (generateOverview crashingBrowser threeSections)) (Destroy 0) = 0"
proof -
  have e: "events (generateOverview crashingBrowser threeSections) =
     [Announce ''Starting AI overview generation. Please wait.'', Availability,
      Announce ''Generating summary. This may take a moment.'', Create 0,
      Run 0 ''IntroA short welcome note for a visitor.MoreNothing here yetDetailsThe details section explains how the reader opens the panel, picks one of the three commands and waits while the page is processed. Each result is written into the page and read out by a screen reader'',
      AnnounceLater 500 ''AI Overview failed. Error: The model crashed.'']"
    by (simp add: generateOverview_def crashingBrowser_def textBrowser_def readyCapability_def
        threeSections_def extractMainContent_def querySelectorTag_def bodyOf_def orElse_def
        trim_def isWhite_def substring0_def overviewFailed_def errorMsg_def Let_def
        downloadAnnouncements_def nextSession_def)
  show ?thesis unfolding e by simp
qed


text \<open>
  C2 fails on the code: \<open>generateCues\<close> creates a session for every heading and, when
  \<open>summarize\<close> rejects, leaves it live; the session for the next heading is created
  while the earlier one is still not released.
\<close>

theorem summaries_two_live_sessions:
  "take 11 (events (fst (generateCues crashingBrowser threeSections))) =
     [Announce ''Starting section summaries generation. Please wait.'', Availability,
      Announce ''Generating summaries for 3 sections. This will take a moment.'',
      Sleep 1000, Announce ''Processing section 1 of 3: Intro'', Create 0,
      Run 0 ''IntroA short welcome note for a visitor.'',
      Sleep 1000, Sleep 1000, Announce ''Processing section 3 of 3: Details'', Create 1]
   \<and> liveSessions (take 11 (events (fst (generateCues crashingBrowser threeSections)))) = [0, 1]"
  unfolding crashing_summaries_events by (simp add: liveSessions_def)

section \<open>Pacing\<close>

lemma sleptAfter_append:
  "sleptAfter ms b (xs @ ys) = sleptAfter ms (sleptAfter ms b xs) ys"
  by (induction ms b xs rule: sleptAfter.induct) simp_all

lemma paced_append:
  "paced ms b (xs @ ys) = (paced ms b xs \<and> paced ms (sleptAfter ms b xs) ys)"
  by (induction ms b xs rule: paced.induct) auto

lemma sleptAfter_Sleep: "sleptAfter ms b xs \<Longrightarrow> b \<or> Sleep ms \<in> set xs"
  by (induction ms b xs rule: sleptAfter.induct) auto

lemma paced_separatedBy:
  assumes "paced ms False es"
  shows "separatedBy ms es"
proof -
  have one: "Sleep ms \<in> set a" if "es = a @ Run s x # c" for a s x c
  proof -
    have "sleptAfter ms False a" using assms that by (simp add: paced_append)
    then show ?thesis using sleptAfter_Sleep by blast
  qed
  have two: "Sleep ms \<in> set b" if "es = a @ Run s x # b @ Run s' x' # c" for a s x b s' x' c
  proof -
    have "paced ms False (b @ Run s' x' # c)" using assms that by (simp add: paced_append)
    then have "sleptAfter ms False b" by (simp add: paced_append)
    then show ?thesis using sleptAfter_Sleep by blast
  qed
  show ?thesis unfolding separatedBy_def using one two by blast
qed

lemma summarizeHeading_paced:
  "paced 1000 b (events (fst st)) \<Longrightarrow>
   paced 1000 b (events (fst (summarizeHeading env len index h st)))"
  by (cases st)
     (auto simp: summarizeHeading_def Let_def paced_append sleptAfter_append
           split: option.splits sum.splits prod.splits)

lemma summarizeHeadings_paced:
  "paced 1000 b (events (fst st)) \<Longrightarrow>
   paced 1000 b (events (fst (summarizeHeadings env len index hs st)))"
  by (induction hs arbitrary: index st) (simp_all add: summarizeHeading_paced)

lemma generateCues_paced: "paced 1000 False (events (fst (generateCues env d)))"
proof -
  have loop: "\<And>es n hs. paced 1000 False es \<Longrightarrow>
      paced 1000 False (events (fst (summarizeHeadings env n 0 hs (\<lparr>dom = d, events = es\<rparr>, 0))))"
    by (rule summarizeHeadings_paced) simp
  show ?thesis
    unfolding generateCues_def cuesFailed_def Let_def
    by (simp add: split_beta loop paced_append split: sum.splits option.splits)
qed


lemma fixElement_paced:
  "paced 600 b (events (fst st)) \<Longrightarrow>
   paced 600 b (events (fst (fixElement env session len index h st)))"
  by (cases st)
     (auto simp: fixElement_def Let_def paced_append sleptAfter_append
           split: option.splits sum.splits prod.splits)

lemma fixElements_paced:
  "paced 600 b (events (fst st)) \<Longrightarrow>
   paced 600 b (events (fst (fixElements env session len index hs st)))"
  by (induction hs arbitrary: index st) (simp_all add: fixElement_paced)

lemma fixContextLabels_paced: "paced 600 False (events (fst (fixContextLabels env d)))"
proof -
  have loop: "\<And>es s n hs. paced 600 False es \<Longrightarrow>
      paced 600 False (events (fst (fixElements env s n 0 hs (\<lparr>dom = d, events = es\<rparr>, 0))))"
    by (rule fixElements_paced) simp
  show ?thesis
    unfolding fixContextLabels_def labelsFailed_def Let_def
    by (simp add: split_beta loop paced_append split: sum.splits option.splits)
qed

lemma describeHeading_paced:
  "paced 800 b (events (fst st)) \<Longrightarrow>
   paced 800 b (events (fst (describeHeading env session len index h st)))"
  by (cases st)
     (auto simp: describeHeading_def Let_def paced_append sleptAfter_append
           split: option.splits sum.splits prod.splits)

lemma describeHeadings_paced:
  "paced 800 b (events (fst st)) \<Longrightarrow>
   paced 800 b (events (fst (describeHeadings env session len index hs st)))"
  by (induction hs arbitrary: index st) (simp_all add: describeHeading_paced)

lemma generateCues_content_paced: "paced 800 False (events (fst (generateCues_content env d)))"
proof -
  have loop: "\<And>es s n hs. paced 800 False es \<Longrightarrow>
      paced 800 False (events (fst (describeHeadings env s n 0 hs (\<lparr>dom = d, events = es\<rparr>, 0))))"
    by (rule describeHeadings_paced) simp
  show ?thesis
    unfolding generateCues_content_def sectionCuesFailed_def Let_def
    by (simp add: split_beta loop paced_append split: sum.splits option.splits)
qed



lemma filter_isRun_downloads: "filter isRun (downloadAnnouncements ps) = []"
  by (induction ps) (simp_all add: downloadAnnouncements_def)

lemma generateOverview_one_call: "length (filter isRun (events (generateOverview env d))) \<le> 1"
proof (cases "present (Summarizer env)")
  case False
  then show ?thesis by (simp add: generateOverview_def overviewFailed_def)
next
  case p: True
  show ?thesis
  proof (cases "availability (Summarizer env)")
    case (Inl m)
    then show ?thesis using p by (simp add: generateOverview_def overviewFailed_def)
  next
    case a: (Inr avail)
    show ?thesis
    proof (cases "avail = ''no''")
      case True
      then show ?thesis using p a by (simp add: generateOverview_def overviewFailed_def)
    next
      case n: False
      show ?thesis
      proof (cases "extractMainContent (innerText env) (nullMessage env) d")
        case (Inl m)
        then show ?thesis using p a n by (simp add: generateOverview_def overviewFailed_def)
      next
        case x: (Inr body)
        show ?thesis
        proof (cases "body = [] \<or> length body < 50")
          case True
          then show ?thesis using p a n x by (simp add: generateOverview_def overviewFailed_def)
        next
          case l: False
          let ?e2 = "[Announce ''Starting AI overview generation. Please wait.''] @ [Availability] @
                (if avail = ''after-download''
                 then [Announce ''AI model needs to be downloaded. Starting download. This may take a few minutes.'']
                 else []) @ [Announce ''Generating summary. This may take a moment.'']"
          let ?e3 = "?e2 @ downloadAnnouncements (progress (Summarizer env) ?e2)"
          show ?thesis
          proof (cases "create (Summarizer env) ?e2")
            case (Some m)
            then show ?thesis using p a n x l
              by (simp add: generateOverview_def overviewFailed_def Let_def filter_isRun_downloads)
          next
            case c: None
            show ?thesis
            proof (cases "run (Summarizer env) (?e3 @ [Create (nextSession ?e3)]) body")
              case (Inl m)
              then show ?thesis using p a n x l c
                by (simp add: generateOverview_def overviewFailed_def Let_def filter_isRun_downloads)
            next
              case (Inr summary)
              then show ?thesis using p a n x l c
                by (simp add: generateOverview_def overviewFailed_def Let_def filter_isRun_downloads)
            qed
          qed
        qed
      qed
    qed
  qed
qed


text \<open>
  C7: in every run each generation call comes after a pacing delay, and between any two
  generation calls of a run lies the delay of that run: 1000 ms for the section
  summaries, 800 ms for the section cues of \<open>content.js\<close>, 600 ms for the label repair.
  The page overview makes at most one generation call.
\<close>

theorem calls_are_paced:
  "separatedBy 1000 (events (fst (generateCues env d)))
   \<and> separatedBy 800 (events (fst (generateCues_content env d)))
   \<and> separatedBy 600 (events (fst (fixContextLabels env d)))
   \<and> length (filter isRun (events (generateOverview env d))) \<le> 1"
  using paced_separatedBy[OF generateCues_paced] paced_separatedBy[OF generateCues_content_paced]
    paced_separatedBy[OF fixContextLabels_paced] generateOverview_one_call
  by blast

theorem calls_are_paced_witness:
  "events (fst (generateCues crashingBrowser threeSections)) =
     [Announce ''Starting section summaries generation. Please wait.'', Availability,
      Announce ''Generating summaries for 3 sections. This will take a moment.'',
      Sleep 1000, Announce ''Processing section 1 of 3: Intro'', Create 0]
     @ Run 0 ''IntroA short welcome note for a visitor.''
     # [Sleep 1000, Sleep 1000, Announce ''Processing section 3 of 3: Details'', Create 1]
     @ Run 1 ''The details section explains how the reader opens the panel, picks one of the three commands and waits while the page is processed. Each result is written into the page and read out by a screen reader''
     # [Announce ''Section summaries complete. Generated 0 summaries. Navigate the page to see them.'']
   \<and> Sleep 1000 \<in> set [Sleep 1000, Sleep 1000, Announce ''Processing section 3 of 3: Details'', Create 1]"
proof -
  let ?a = "[Announce ''Starting section summaries generation. Please wait.'', Availability,
      Announce ''Generating summaries for 3 sections. This will take a moment.'',
      Sleep 1000, Announce ''Processing section 1 of 3: Intro'', Create 0]"
  let ?b = "[Sleep 1000, Sleep 1000, Announce ''Processing section 3 of 3: Details'', Create 1]"
  let ?c = "[Announce ''Section summaries complete. Generated 0 summaries. Navigate the page to see them.'']"
  let ?x = "''IntroA short welcome note for a visitor.''"
  let ?y = "''The details section explains how the reader opens the panel, picks one of the three commands and waits while the page is processed. Each result is written into the page and read out by a screen reader''"
  have e: "events (fst (generateCues crashingBrowser threeSections)) = ?a @ Run 0 ?x # ?b @ Run 1 ?y # ?c"
    unfolding crashing_summaries_events by (simp only: append.simps)
  have s: "separatedBy 1000 (events (fst (generateCues crashingBrowser threeSections)))"
    using calls_are_paced[of crashingBrowser threeSections] by (rule conjunct1)
  have "\<forall>a s x b s' x' c. events (fst (generateCues crashingBrowser threeSections)) = a @ Run s x # b @ Run s' x' # c \<longrightarrow> Sleep 1000 \<in> set b"
    using s unfolding separatedBy_def by (rule conjunct2)
  then have "events (fst (generateCues crashingBrowser threeSections)) = ?a @ Run 0 ?x # ?b @ Run 1 ?y # ?c \<longrightarrow> Sleep 1000 \<in> set ?b"
    by (elim allE)
  then have "Sleep 1000 \<in> set ?b" using e by (rule mp)
  then show ?thesis using e by (rule conjI[rotated])
qed

section \<open>The cut-off for insufficient content\<close>

lemma runInputs_append: "runInputs (xs @ ys) = runInputs xs @ runInputs ys"
  by (induction xs rule: runInputs.induct) simp_all

lemma trim_Nil: "trim [] = []"
  by (simp add: trim_def)

lemma turn_skipped:
  assumes "awaitsSummary env (dom p) h n" and "n < 30"
  shows "summarizeHeading env len i h (p, k) = (p\<lparr>events := events p @ [Sleep 1000]\<rparr>, k)"
  using assms
  by (auto simp: awaitsSummary_def summarizeHeading_def Let_def split: option.splits)

lemma turn_attempted:
  assumes "awaitsSummary env (dom p) h n" and "30 \<le> n"
    and "\<And>es. create (Summarizer env) es = None"
    and "\<And>es x. \<exists>y. run (Summarizer env) es x = Inr y \<and> trim y \<noteq> []"
  shows "snd (summarizeHeading env len i h (p, k)) = k + 1
         \<and> (\<exists>x. length x = n
              \<and> runInputs (events (fst (summarizeHeading env len i h (p, k))))
                  = runInputs (events p) @ [x])"
proof -
  obtain heading sibs anc where pl: "findPlace (dom p) h = Some (heading, sibs, anc)"
    using assms(1) by (auto simp: awaitsSummary_def split: option.splits)
  let ?x = "sectionOfPlace (innerText env) (heading, sibs, anc)"
  let ?e2 = "events p @ [Sleep 1000] @ [Announce (''Processing section '' @ showNat (i + 1)
                 @ '' of '' @ showNat len @ '': '' @ trim (innerText env heading))]"
  have facts: "trim (innerText env heading) \<noteq> []" "length (trim (innerText env heading)) \<le> 200"
      "\<not> hasAttribute heading summaryMarker" "length ?x = n"
    using assms(1) pl by (auto simp: awaitsSummary_def)
  obtain y where y: "run (Summarizer env) (?e2 @ [Create (nextSession ?e2)]) ?x = Inr y" "trim y \<noteq> []"
    using assms(4) by blast
  have yne: "y \<noteq> []" using y(2) trim_Nil by auto
  have ne: "?x \<noteq> []" using facts(4) assms(2) by auto
  show ?thesis
    using pl facts assms(2) assms(3) y yne ne
    by (simp add: summarizeHeading_def Let_def runInputs_append)
qed


lemma summarizing_three_sections:
  "(case generateCues summarizingBrowser threeSections of
      (p, successCount) \<Rightarrow> (runInputs (events p), successCount)) =
   ([''IntroA short welcome note for a visitor.'',
     ''The details section explains how the reader opens the panel, picks one of the three commands and waits while the page is processed. Each result is written into the page and read out by a screen reader''],
    2)"
  by code_simp

lemma three_sections_lengths:
  "headingsOf threeSections = [3, 6, 9]
   \<and> length (getSectionContent textContent threeSections 3) = 40
   \<and> length (getSectionContent textContent threeSections 6) = 20
   \<and> length (getSectionContent textContent threeSections 9) = 200"
  by code_simp

text \<open>
  C4, as stated, fails: on a page with three headings whose sections have 40, 20 and 200
  characters, the section summaries call the capability for the first and for the third
  heading, and the success count ends at 2. The cut-off of the run is 30 characters.
\<close>

theorem three_sections_two_attempts:
  "headingsOf threeSections = [3, 6, 9]
   \<and> length (getSectionContent textContent threeSections 3) = 40
   \<and> length (getSectionContent textContent threeSections 6) = 20
   \<and> length (getSectionContent textContent threeSections 9) = 200
   \<and> runInputs (events (fst (generateCues summarizingBrowser threeSections))) =
       [''IntroA short welcome note for a visitor.'',
        ''The details section explains how the reader opens the panel, picks one of the three commands and waits while the page is processed. Each result is written into the page and read out by a screen reader'']
   \<and> snd (generateCues summarizingBrowser threeSections) = 2"
  using summarizing_three_sections three_sections_lengths
  by (cases "generateCues summarizingBrowser threeSections") simp

text \<open>
  C4, amended: for a document with exactly 3 headings whose sections have 40, 20 and 200
  characters when their turn comes, the section summaries make a capability call for the
  first and for the third heading only, the second being skipped as having insufficient
  content (fewer than 30 characters), and the success count ends at 2 when the results
  are accepted.
\<close>

theorem three_sections_scenario:
  assumes "headingsOf d = [a, b, c]"
    and "present (Summarizer env)"
    and "availability (Summarizer env) = Inr avail" and "avail \<noteq> ''no''"
    and "\<And>es. create (Summarizer env) es = None"
    and "\<And>es x. \<exists>y. run (Summarizer env) es x = Inr y \<and> trim y \<noteq> []"
    and "awaitsSummary env d a 40"
    and "\<And>es. awaitsSummary env (dom (fst (summarizeHeading env 3 0 a (\<lparr>dom = d, events = es\<rparr>, 0)))) b 20"
    and "\<And>es. awaitsSummary env (dom (fst (summarizeHeading env 3 0 a (\<lparr>dom = d, events = es\<rparr>, 0)))) c 200"
  shows "map length (runInputs (events (fst (generateCues env d)))) = [40, 200]
         \<and> snd (generateCues env d) = 2"
proof -
  define e2 where "e2 = [Announce ''Starting section summaries generation. Please wait.'']
       @ [Availability] @
       (if avail = ''after-download''
        then [Announce ''AI model needs to be downloaded. This may take a few minutes.'']
        else [])
       @ [Announce (''Generating summaries for '' @ showNat 3 @ '' sections. This will take a moment.'')]"
  define st1 where "st1 = summarizeHeading env 3 0 a (\<lparr>dom = d, events = e2\<rparr>, 0)"
  define st2 where "st2 = summarizeHeading env 3 1 b st1"
  define st3 where "st3 = summarizeHeading env 3 2 c st2"
  have r0: "runInputs e2 = []" by (simp add: e2_def runInputs_append)
  have t1: "snd st1 = 1 \<and> (\<exists>x. length x = 40 \<and> runInputs (events (fst st1)) = [x])"
    using turn_attempted[of env "\<lparr>dom = d, events = e2\<rparr>" a 40 3 0 0] assms(5,6,7) r0
    unfolding st1_def by simp
  have b: "awaitsSummary env (dom (fst st1)) b 20" unfolding st1_def by (rule assms(8))
  have t2: "st2 = ((fst st1)\<lparr>events := events (fst st1) @ [Sleep 1000]\<rparr>, snd st1)"
    using turn_skipped[OF b, of 3 1 "snd st1"] unfolding st2_def by simp
  have c: "awaitsSummary env (dom (fst st2)) c 200"
    using assms(9)[of e2] unfolding t2 st1_def by simp
  have t3: "snd st3 = snd st2 + 1 \<and> (\<exists>x. length x = 200
              \<and> runInputs (events (fst st3)) = runInputs (events (fst st2)) @ [x])"
    using turn_attempted[OF c _ assms(5,6), of 3 2 "snd st2"] unfolding st3_def by simp
  have run: "generateCues env d =
      ((fst st3)\<lparr>events := events (fst st3) @
          [Announce (''Section summaries complete. Generated '' @ showNat (snd st3)
             @ '' summaries. Navigate the page to see them.'')]\<rparr>, snd st3)"
    using assms(1-4)
    by (simp add: generateCues_def Let_def split_beta st3_def st2_def st1_def e2_def
        numeral_3_eq_3 numeral_2_eq_2)
  show ?thesis
    unfolding run using t1 t2 t3 by (auto simp: runInputs_append)
qed


lemma three_sections_first_turn:
  "awaitsSummary summarizingBrowser threeSections 3 40
   \<and> awaitsSummary summarizingBrowser
        (dom (fst (summarizeHeading summarizingBrowser 3 0 3 (\<lparr>dom = threeSections, events = es\<rparr>, 0)))) 6 20
   \<and> awaitsSummary summarizingBrowser
        (dom (fst (summarizeHeading summarizingBrowser 3 0 3 (\<lparr>dom = threeSections, events = es\<rparr>, 0)))) 9 200"
  by code_simp

theorem three_sections_scenario_witness:
  "headingsOf threeSections = [3, 6, 9]
   \<and> present (Summarizer summarizingBrowser)
   \<and> availability (Summarizer summarizingBrowser) = Inr ''available''
   \<and> awaitsSummary summarizingBrowser threeSections 3 40
   \<and> map length (runInputs (events (fst (generateCues summarizingBrowser threeSections)))) = [40, 200]
   \<and> snd (generateCues summarizingBrowser threeSections) = 2"
proof -
  have h: "headingsOf threeSections = [3, 6, 9]" using three_sections_lengths by simp
  have p: "present (Summarizer summarizingBrowser)"
    and a: "availability (Summarizer summarizingBrowser) = Inr ''available''"
    and c: "\<And>es. create (Summarizer summarizingBrowser) es = None"
    and r: "\<And>es x. \<exists>y. run (Summarizer summarizingBrowser) es x = Inr y \<and> trim y \<noteq> []"
    by (simp_all add: summarizingBrowser_def textBrowser_def readyCapability_def trim_def isWhite_def)
  have n: "''available'' \<noteq> ''no''" by simp
  have t1: "awaitsSummary summarizingBrowser threeSections 3 40"
    using three_sections_first_turn by simp
  have t2: "\<And>es. awaitsSummary summarizingBrowser
        (dom (fst (summarizeHeading summarizingBrowser 3 0 3 (\<lparr>dom = threeSections, events = es\<rparr>, 0)))) 6 20"
    using three_sections_first_turn by simp
  have t3: "\<And>es. awaitsSummary summarizingBrowser
        (dom (fst (summarizeHeading summarizingBrowser 3 0 3 (\<lparr>dom = threeSections, events = es\<rparr>, 0)))) 9 200"
    using three_sections_first_turn by simp
  show ?thesis
    using three_sections_scenario[OF h p a n c r t1 t2 t3] h p a t1 by simp
qed

section \<open>Running the section summaries twice\<close>

lemma find_append: "find P (xs @ ys) = (case find P xs of None \<Rightarrow> find P ys | Some x \<Rightarrow> Some x)"
  by (induction xs) auto

lemma elementsOf_isElement: "n \<in> set (elementsOf d) \<Longrightarrow> isElement n"
  by (induction d arbitrary: n) auto

lemma locate_find:
  "map_option fst (locate h anc ns) = find (\<lambda>x. nid x = h) (concat (map elementsOf ns))"
proof (induction h anc ns rule: locate.induct)
  case (1 h anc)
  then show ?case by simp
next
  case (2 h anc s rest)
  then show ?case by simp
next
  case (3 h anc i t a cs rest)
  show ?case
  proof (cases "i = h")
    case True
    then show ?thesis by simp
  next
    case False
    show ?thesis
    proof (cases "locate h ((Element i t a cs, rest) # anc) cs")
      case None
      then have "find (\<lambda>x. nid x = h) (concat (map elementsOf cs)) = None"
        using 3(1)[OF False] by simp
      then show ?thesis using False None 3(2)[OF False None] by (simp add: find_append)
    next
      case (Some r)
      then have "find (\<lambda>x. nid x = h) (concat (map elementsOf cs)) = Some (fst r)"
        using 3(1)[OF False] by simp
      then show ?thesis using False Some by (simp add: find_append)
    qed
  qed
qed





lemma find_map_option: "find P (map f xs) = map_option f (find (\<lambda>x. P (f x)) xs)"
  by (induction xs) auto

lemma findPlace_find:
  "map_option fst (findPlace d h) = find (\<lambda>x. nid x = h) (elementsOf d)"
  using locate_find[of h "[]" "[d]"] by (simp add: findPlace_def)

lemma attrsAt_outline:
  "attrsAt (outline d) h = map_option attrs (find (\<lambda>x. nid x = h) (elementsOf d))"
  by (simp add: attrsAt_def outline_def find_map_option option.map_comp comp_def)

lemma marked_outline:
  "marked d h \<longleftrightarrow>
     (case attrsAt (outline d) h of None \<Rightarrow> False | Some a \<Rightarrow> map_of a summaryMarker \<noteq> None)"
proof (cases "findPlace d h")
  case None
  then have "find (\<lambda>x. nid x = h) (elementsOf d) = None"
    using findPlace_find[of d h] by simp
  then show ?thesis using None by (simp add: marked_def attrsAt_outline)
next
  case (Some pl)
  obtain n s a where pl: "pl = (n, s, a)" by (cases pl)
  have "find (\<lambda>x. nid x = h) (elementsOf d) = Some n"
    using findPlace_find[of d h] Some pl by simp
  then show ?thesis using Some pl by (simp add: marked_def attrsAt_outline hasAttribute_def)
qed

lemma elementsOf_setAttribute:
  "elementsOf (setAttribute h k v d) = map (setAttribute h k v) (elementsOf d)"
proof (induction d)
  case (Text s)
  then show ?case by simp
next
  case (Element i t a cs)
  have "concat (map (\<lambda>c. elementsOf (setAttribute h k v c)) cs)
        = concat (map (\<lambda>c. map (setAttribute h k v) (elementsOf c)) cs)"
    using Element by (induction cs) auto
  then show ?case by (simp add: comp_def map_concat)
qed

lemma outline_setAttribute:
  "outline (setAttribute h k v d) =
     map (\<lambda>e. (fst e, fst (snd e), if fst e = h then setAttr k v (snd (snd e)) else snd (snd e)))
       (outline d)"
proof -
  have el: "\<And>n. isElement n \<Longrightarrow>
      (nid (setAttribute h k v n), tagName (setAttribute h k v n), attrs (setAttribute h k v n))
       = (nid n, tagName n, if nid n = h then setAttr k v (attrs n) else attrs n)"
    by (case_tac n) auto
  show ?thesis
    unfolding outline_def elementsOf_setAttribute
    by (auto simp: el elementsOf_isElement)
qed

lemma outline_Element:
  "outline (Element i t a cs) = (i, t, a) # concat (map outline cs)"
  by (simp add: outline_def[abs_def] map_concat comp_def)

lemma outline_Text: "outline (Text s) = []"
  by (simp add: outline_def)

lemma outline_insertAfter:
  fixes B :: "nat set"
  shows "\<forall>e \<in> set (outline new). fst e \<in> B \<Longrightarrow>
         filter (\<lambda>e. fst e \<notin> B) (outline (insertAfter h new d))
           = filter (\<lambda>e. fst e \<notin> B) (outline d)"
    and "\<forall>e \<in> set (outline new). fst e \<in> B \<Longrightarrow>
         filter (\<lambda>e. fst e \<notin> B) (concat (map outline (insertAfterIn h new ns)))
           = filter (\<lambda>e. fst e \<notin> B) (concat (map outline ns))"
proof (induction h new d and h new ns rule: insertAfter_insertAfterIn.induct)
  case (1 h new s)
  then show ?case by simp
next
  case (2 h new i t a cs)
  then show ?case by (simp add: outline_Element)
next
  case (3 h new)
  then show ?case by simp
next
  case (4 h new n ns)
  have none: "filter (\<lambda>e. fst e \<notin> B) (outline new) = []"
    using 4(3) by (simp add: filter_empty_conv)
  show ?case
  proof (cases "isElement n \<and> nid n = h")
    case True
    then show ?thesis using none by simp
  next
    case False
    then show ?thesis using 4 by auto
  qed
qed

lemma fold_max_ge: "(m::nat) \<le> fold max xs m"
  by (induction xs arbitrary: m) (auto intro: order_trans[OF max.cobounded2])

lemma fold_max_mem: "(x::nat) \<in> set xs \<Longrightarrow> x \<le> fold max xs m"
proof (induction xs arbitrary: m)
  case Nil
  then show ?case by simp
next
  case (Cons y ys)
  show ?case
  proof (cases "x = y")
    case True
    have "x \<le> max y m" using True by simp
    also have "\<dots> \<le> fold max ys (max y m)" by (rule fold_max_ge)
    finally show ?thesis by simp
  next
    case False
    then show ?thesis using Cons by simp
  qed
qed

lemma outline_below_fresh: "e \<in> set (outline d) \<Longrightarrow> fst e < freshId d"
proof -
  assume "e \<in> set (outline d)"
  then have "fst e \<in> set (map nid (elementsOf d))" by (auto simp: outline_def)
  then have "fst e \<le> fold max (map nid (elementsOf d)) 0" by (rule fold_max_mem)
  then show ?thesis by (simp add: freshId_def)
qed

lemma outline_box:
  "outline (sectionSummaryBox f y) =
     [(f, ''DIV'', attrs (sectionSummaryBox f y)), (Suc f, ''EM'', [])]"
  by (simp add: outline_def sectionSummaryBox_def)

text \<open>The outline after a summary was inserted, without the two elements of the note.\<close>

lemma outline_afterSummary:
  "filter (\<lambda>e. fst e \<notin> {freshId (setAttribute h summaryMarker ''true'' d),
                          Suc (freshId (setAttribute h summaryMarker ''true'' d))})
      (outline (afterSummary d h y))
   = map (markEntry h) (outline d)"
proof -
  let ?d1 = "setAttribute h summaryMarker ''true'' d"
  let ?B = "{freshId ?d1, Suc (freshId ?d1)}"
  have box: "\<forall>e \<in> set (outline (sectionSummaryBox (freshId ?d1) y)). fst e \<in> ?B"
    by (simp add: outline_box)
  have "filter (\<lambda>e. fst e \<notin> ?B) (outline (afterSummary d h y)) = filter (\<lambda>e. fst e \<notin> ?B) (outline ?d1)"
    unfolding afterSummary_def by (rule outline_insertAfter(1)[OF box])
  also have "\<dots> = outline ?d1"
  proof (rule filter_True)
    show "\<forall>e \<in> set (outline ?d1). fst e \<notin> ?B"
    proof
      fix e assume "e \<in> set (outline ?d1)"
      then have "fst e < freshId ?d1" by (rule outline_below_fresh)
      then show "fst e \<notin> ?B" by simp
    qed
  qed
  finally show ?thesis by (simp add: outline_setAttribute markEntry_def[abs_def])
qed

lemma attrsAt_filter:
  "h \<notin> B \<Longrightarrow> attrsAt (filter (\<lambda>e. fst e \<notin> B) ol) h = attrsAt ol h"
  by (induction ol) (auto simp: attrsAt_def)

lemma attrsAt_markEntry:
  "attrsAt (map (markEntry h) ol) h'
     = map_option (\<lambda>a. if h' = h then setAttr summaryMarker ''true'' a else a) (attrsAt ol h')"
  by (induction ol) (auto simp: attrsAt_def markEntry_def)

lemma map_of_setAttr: "map_of (setAttr k v a) k' = (if k' = k then Some v else map_of a k')"
  by (induction a) auto

lemma present_not_fresh:
  assumes "e \<in> set (outline d)"
  shows "fst e \<notin> {freshId (setAttribute h summaryMarker ''true'' d),
                   Suc (freshId (setAttribute h summaryMarker ''true'' d))}"
proof -
  let ?d1 = "setAttribute h summaryMarker ''true'' d"
  have "markEntry h e \<in> set (map (markEntry h) (outline d))" using assms by simp
  then have "markEntry h e \<in> set (outline ?d1)"
    by (simp add: outline_setAttribute markEntry_def[abs_def])
  then have "fst (markEntry h e) < freshId ?d1" by (rule outline_below_fresh)
  then show ?thesis by (simp add: markEntry_def)
qed

lemma attrsAt_mem: "attrsAt ol h = Some a \<Longrightarrow> \<exists>e \<in> set ol. fst e = h"
  by (induction ol) (auto simp: attrsAt_def split: if_splits)

lemma attrsAt_afterSummary:
  assumes "attrsAt (outline d) h' = Some a"
  shows "attrsAt (outline (afterSummary d h y)) h'
           = Some (if h' = h then setAttr summaryMarker ''true'' a else a)"
proof -
  let ?d1 = "setAttribute h summaryMarker ''true'' d"
  let ?B = "{freshId ?d1, Suc (freshId ?d1)}"
  obtain e where "e \<in> set (outline d)" "fst e = h'" using attrsAt_mem[OF assms] by blast
  then have nb: "h' \<notin> ?B" using present_not_fresh[of e d h] by simp
  have "attrsAt (outline (afterSummary d h y)) h'
        = attrsAt (filter (\<lambda>e. fst e \<notin> ?B) (outline (afterSummary d h y))) h'"
    using attrsAt_filter[OF nb] by simp
  also have "\<dots> = attrsAt (map (markEntry h) (outline d)) h'"
    unfolding outline_afterSummary ..
  finally show ?thesis using assms by (simp add: attrsAt_markEntry)
qed

lemma marked_afterSummary_keeps:
  "marked d h' \<Longrightarrow> marked (afterSummary d h y) h'"
  unfolding marked_outline
  by (auto simp: attrsAt_afterSummary map_of_setAttr split: option.splits)

lemma marked_afterSummary_sets:
  "attrsAt (outline d) h \<noteq> None \<Longrightarrow> marked (afterSummary d h y) h"
  unfolding marked_outline
  by (auto simp: attrsAt_afterSummary map_of_setAttr split: option.splits)

lemma headingsOf_outline:
  "headingsOf d = map fst (filter (\<lambda>e. isHeadingTag (fst (snd e))) (outline d))"
  unfolding headingsOf_def outline_def isHeading_def
  by (simp add: filter_map comp_def elementsOf_isElement cong: filter_cong)

lemma headings_afterSummary:
  assumes "h' \<in> set (headingsOf d)"
  shows "h' \<in> set (headingsOf (afterSummary d h y))"
proof -
  let ?d1 = "setAttribute h summaryMarker ''true'' d"
  let ?B = "{freshId ?d1, Suc (freshId ?d1)}"
  obtain e where e: "e \<in> set (outline d)" "fst e = h'" "isHeadingTag (fst (snd e))"
    using assms unfolding headingsOf_outline by auto
  have "markEntry h e \<in> set (map (markEntry h) (outline d))" using e(1) by simp
  then have "markEntry h e \<in> set (filter (\<lambda>e. fst e \<notin> ?B) (outline (afterSummary d h y)))"
    unfolding outline_afterSummary .
  then have m: "markEntry h e \<in> set (outline (afterSummary d h y))" by simp
  have "fst (markEntry h e) = h'" "isHeadingTag (fst (snd (markEntry h e)))"
    using e(2,3) by (simp_all add: markEntry_def)
  then show ?thesis unfolding headingsOf_outline using m by force
qed

lemma notesAfter_append: "notesAfter h (xs @ ys) = notesAfter h xs + notesAfter h ys"
  by (induction h xs rule: notesAfter.induct) simp_all


text \<open>What one turn does to the document and to the notes.\<close>

lemma turn_effect:
  "(dom (fst (summarizeHeading env len i h (p, k))) = dom p
      \<and> notesAfter h' (events (fst (summarizeHeading env len i h (p, k))))
            = notesAfter h' (events p))
   \<or> (\<exists>y. \<not> marked (dom p) h \<and> attrsAt (outline (dom p)) h \<noteq> None
         \<and> dom (fst (summarizeHeading env len i h (p, k))) = afterSummary (dom p) h y
         \<and> notesAfter h' (events (fst (summarizeHeading env len i h (p, k))))
               = notesAfter h' (events p) + (if h' = h then 1 else 0))"
proof (cases "findPlace (dom p) h")
  case None
  then show ?thesis by (simp add: summarizeHeading_def notesAfter_append)
next
  case (Some pl)
  obtain heading sibs anc where pl: "pl = (heading, sibs, anc)" by (cases pl)
  have found: "attrsAt (outline (dom p)) h \<noteq> None"
    using findPlace_find[of "dom p" h, symmetric] Some by (simp add: attrsAt_outline)
  have m: "marked (dom p) h = hasAttribute heading summaryMarker"
    using Some pl by (simp add: marked_def)
  show ?thesis
    using Some pl found m
    by (auto simp: summarizeHeading_def Let_def notesAfter_append afterSummary_def
             split: option.splits sum.splits)
qed

lemma turn_keeps:
  assumes "marked (dom (fst st)) h'"
  shows "marked (dom (fst (summarizeHeading env len i h st))) h'
         \<and> notesAfter h' (events (fst (summarizeHeading env len i h st)))
             = notesAfter h' (events (fst st))"
proof -
  obtain p k where st: "st = (p, k)" by (cases st)
  show ?thesis
    using turn_effect[of env len i h p k h'] assms marked_afterSummary_keeps[of "dom p" h' h]
    unfolding st by auto
qed

lemma turn_grows:
  "notesAfter h' (events (fst (summarizeHeading env len i h st)))
     \<le> notesAfter h' (events (fst st)) + 1
   \<and> (notesAfter h' (events (fst (summarizeHeading env len i h st)))
         \<noteq> notesAfter h' (events (fst st))
        \<longrightarrow> marked (dom (fst (summarizeHeading env len i h st))) h')"
proof -
  obtain p k where st: "st = (p, k)" by (cases st)
  show ?thesis
    using turn_effect[of env len i h p k h'] marked_afterSummary_sets[of "dom p" h]
    unfolding st by (auto split: if_splits)
qed

lemma turn_headings:
  assumes "h' \<in> set (headingsOf (dom (fst st)))"
  shows "h' \<in> set (headingsOf (dom (fst (summarizeHeading env len i h st))))"
proof -
  obtain p k where st: "st = (p, k)" by (cases st)
  show ?thesis
    using turn_effect[of env len i h p k h'] assms headings_afterSummary[of h' "dom p" h]
    unfolding st by auto
qed

lemma turns_keep:
  "marked (dom (fst st)) h' \<Longrightarrow>
   marked (dom (fst (summarizeHeadings env len i hs st))) h'
   \<and> notesAfter h' (events (fst (summarizeHeadings env len i hs st)))
       = notesAfter h' (events (fst st))"
proof (induction hs arbitrary: i st)
  case Nil
  then show ?case by simp
next
  case (Cons h hs)
  have k: "marked (dom (fst (summarizeHeading env len i h st))) h'
           \<and> notesAfter h' (events (fst (summarizeHeading env len i h st)))
               = notesAfter h' (events (fst st))"
    using turn_keeps[OF Cons.prems] .
  show ?case using Cons.IH[of "summarizeHeading env len i h st" "Suc i"] k by simp
qed

lemma turns_grow:
  "notesAfter h' (events (fst (summarizeHeadings env len i hs st)))
     \<le> notesAfter h' (events (fst st)) + 1
   \<and> (notesAfter h' (events (fst (summarizeHeadings env len i hs st)))
         \<noteq> notesAfter h' (events (fst st))
        \<longrightarrow> marked (dom (fst (summarizeHeadings env len i hs st))) h')"
proof (induction hs arbitrary: i st)
  case Nil
  then show ?case by simp
next
  case (Cons h hs)
  let ?st1 = "summarizeHeading env len i h st"
  show ?case
  proof (cases "notesAfter h' (events (fst ?st1)) = notesAfter h' (events (fst st))")
    case True
    then show ?thesis using Cons.IH[of "Suc i" ?st1] by simp
  next
    case False
    then have m: "marked (dom (fst ?st1)) h'" using turn_grows[of h' env len i h st] by blast
    have le: "notesAfter h' (events (fst ?st1)) \<le> notesAfter h' (events (fst st)) + 1"
      using turn_grows[of h' env len i h st] by blast
    show ?thesis using turns_keep[OF m, of env len "Suc i" hs] le by simp
  qed
qed

lemma turns_headings:
  "h' \<in> set (headingsOf (dom (fst st))) \<Longrightarrow>
   h' \<in> set (headingsOf (dom (fst (summarizeHeadings env len i hs st))))"
  by (induction hs arbitrary: i st) (simp_all add: turn_headings)


lemma generateCues_shape:
  "(\<exists>es. generateCues env d = (\<lparr>dom = d, events = es\<rparr>, 0) \<and> (\<forall>h. notesAfter h es = 0))
   \<or> (\<exists>e2 fin. (\<forall>h. notesAfter h e2 = 0)
         \<and> generateCues env d =
             ((fst (summarizeHeadings env (length (headingsOf d)) 0 (headingsOf d)
                      (\<lparr>dom = d, events = e2\<rparr>, 0)))
                \<lparr>events := events (fst (summarizeHeadings env (length (headingsOf d)) 0
                      (headingsOf d) (\<lparr>dom = d, events = e2\<rparr>, 0))) @ [Announce fin]\<rparr>,
              snd (summarizeHeadings env (length (headingsOf d)) 0 (headingsOf d)
                      (\<lparr>dom = d, events = e2\<rparr>, 0))))"
proof (cases "present (Summarizer env)")
  case False
  then show ?thesis by (simp add: generateCues_def cuesFailed_def)
next
  case p: True
  show ?thesis
  proof (cases "availability (Summarizer env)")
    case (Inl m)
    then show ?thesis using p by (simp add: generateCues_def cuesFailed_def)
  next
    case a: (Inr avail)
    show ?thesis
    proof (cases "avail = ''no''")
      case True
      then show ?thesis using p a by (simp add: generateCues_def cuesFailed_def)
    next
      case n: False
      show ?thesis
      proof (cases "length (headingsOf d) = 0")
        case True
        then show ?thesis using p a n by (simp add: generateCues_def)
      next
        case False
        let ?e2 = "[Announce ''Starting section summaries generation. Please wait.'']
            @ [Availability] @
            (if avail = ''after-download''
             then [Announce ''AI model needs to be downloaded. This may take a few minutes.'']
             else [])
            @ [Announce (''Generating summaries for '' @ showNat (length (headingsOf d))
                 @ '' sections. This will take a moment.'')]"
        have z: "\<forall>h. notesAfter h ?e2 = 0" by (simp add: notesAfter_append)
        have "generateCues env d =
             ((fst (summarizeHeadings env (length (headingsOf d)) 0 (headingsOf d)
                      (\<lparr>dom = d, events = ?e2\<rparr>, 0)))
                \<lparr>events := events (fst (summarizeHeadings env (length (headingsOf d)) 0
                      (headingsOf d) (\<lparr>dom = d, events = ?e2\<rparr>, 0))) @
                   [Announce (''Section summaries complete. Generated ''
                      @ showNat (snd (summarizeHeadings env (length (headingsOf d)) 0
                      (headingsOf d) (\<lparr>dom = d, events = ?e2\<rparr>, 0)))
                      @ '' summaries. Navigate the page to see them.'')]\<rparr>,
              snd (summarizeHeadings env (length (headingsOf d)) 0 (headingsOf d)
                      (\<lparr>dom = d, events = ?e2\<rparr>, 0)))"
          using p a n False by (simp add: generateCues_def Let_def split_beta)
        then show ?thesis using z by blast
      qed
    qed
  qed
qed

lemma run_keeps:
  assumes "marked d h"
  shows "marked (dom (fst (generateCues env d))) h
         \<and> notesAfter h (events (fst (generateCues env d))) = 0"
  using generateCues_shape[of env d]
proof (elim disjE exE conjE)
  fix es assume "generateCues env d = (\<lparr>dom = d, events = es\<rparr>, 0)" "\<forall>h. notesAfter h es = 0"
  then show ?thesis using assms by simp
next
  fix e2 fin
  let ?st = "summarizeHeadings env (length (headingsOf d)) 0 (headingsOf d) (\<lparr>dom = d, events = e2\<rparr>, 0)"
  assume z: "\<forall>h. notesAfter h e2 = 0"
    and g: "generateCues env d = ((fst ?st)\<lparr>events := events (fst ?st) @ [Announce fin]\<rparr>, snd ?st)"
  have "marked (dom (fst ?st)) h \<and> notesAfter h (events (fst ?st)) = notesAfter h e2"
    using turns_keep[of "(\<lparr>dom = d, events = e2\<rparr>, 0)" h env] assms by simp
  then show ?thesis unfolding g using z by (simp add: notesAfter_append)
qed

lemma run_grows:
  "notesAfter h (events (fst (generateCues env d))) \<le> 1
   \<and> (notesAfter h (events (fst (generateCues env d))) \<noteq> 0
        \<longrightarrow> marked (dom (fst (generateCues env d))) h)"
  using generateCues_shape[of env d]
proof (elim disjE exE conjE)
  fix es assume "generateCues env d = (\<lparr>dom = d, events = es\<rparr>, 0)" "\<forall>h. notesAfter h es = 0"
  then show ?thesis by simp
next
  fix e2 fin
  let ?st = "summarizeHeadings env (length (headingsOf d)) 0 (headingsOf d) (\<lparr>dom = d, events = e2\<rparr>, 0)"
  assume z: "\<forall>h. notesAfter h e2 = 0"
    and g: "generateCues env d = ((fst ?st)\<lparr>events := events (fst ?st) @ [Announce fin]\<rparr>, snd ?st)"
  have "notesAfter h (events (fst ?st)) \<le> notesAfter h e2 + 1
        \<and> (notesAfter h (events (fst ?st)) \<noteq> notesAfter h e2 \<longrightarrow> marked (dom (fst ?st)) h)"
    using turns_grow[of h env _ 0 _ "(\<lparr>dom = d, events = e2\<rparr>, 0)"] by simp
  then show ?thesis unfolding g using z by (simp add: notesAfter_append)
qed

lemma run_headings:
  assumes "h \<in> set (headingsOf d)"
  shows "h \<in> set (headingsOf (dom (fst (generateCues env d))))"
  using generateCues_shape[of env d]
proof (elim disjE exE conjE)
  fix es assume "generateCues env d = (\<lparr>dom = d, events = es\<rparr>, 0)" "\<forall>h. notesAfter h es = 0"
  then show ?thesis using assms by simp
next
  fix e2 fin
  let ?st = "summarizeHeadings env (length (headingsOf d)) 0 (headingsOf d) (\<lparr>dom = d, events = e2\<rparr>, 0)"
  assume g: "generateCues env d = ((fst ?st)\<lparr>events := events (fst ?st) @ [Announce fin]\<rparr>, snd ?st)"
  have "h \<in> set (headingsOf (dom (fst ?st)))"
    using turns_headings[of h "(\<lparr>dom = d, events = e2\<rparr>, 0)" env] assms by simp
  then show ?thesis unfolding g by simp
qed

text \<open>
  C8, amended: after a second run of the section summaries on the document the first run
  left, every heading the first run left marked is still marked (the second run may mark
  headings the first one left unmarked), the second run inserts no note after a heading
  that was marked after the first run, and over both runs at most one note is inserted
  after any heading.
\<close>

theorem second_run_keeps_marks:
  "markedHeadings (dom (fst (generateCues env1 d)))
     \<subseteq> markedHeadings (dom (fst (generateCues env2 (dom (fst (generateCues env1 d))))))
   \<and> (marked (dom (fst (generateCues env1 d))) h \<longrightarrow>
        notesAfter h (events (fst (generateCues env2 (dom (fst (generateCues env1 d)))))) = 0)
   \<and> notesAfter h (events (fst (generateCues env1 d)))
       + notesAfter h (events (fst (generateCues env2 (dom (fst (generateCues env1 d)))))) \<le> 1"
proof -
  let ?d1 = "dom (fst (generateCues env1 d))"
  have sub: "markedHeadings ?d1 \<subseteq> markedHeadings (dom (fst (generateCues env2 ?d1)))"
    unfolding markedHeadings_def using run_keeps[of ?d1 _ env2] run_headings[of _ ?d1 env2] by blast
  have none: "marked ?d1 h \<longrightarrow> notesAfter h (events (fst (generateCues env2 ?d1))) = 0"
    using run_keeps[of ?d1 h env2] by blast
  have once: "notesAfter h (events (fst (generateCues env1 d)))
       + notesAfter h (events (fst (generateCues env2 ?d1))) \<le> 1"
  proof (cases "notesAfter h (events (fst (generateCues env1 d))) = 0")
    case True
    then show ?thesis using run_grows[of h env2 ?d1] by simp
  next
    case False
    then have "marked ?d1 h" using run_grows[of h env1 d] by blast
    then have "notesAfter h (events (fst (generateCues env2 ?d1))) = 0" using none by blast
    then show ?thesis using run_grows[of h env1 d] by simp
  qed
  show ?thesis using sub none once by blast
qed


lemma markedHeadings_filter: "markedHeadings d = set (filter (marked d) (headingsOf d))"
  by (auto simp: markedHeadings_def)

lemma mixed_order_runs:
  "(case generateCues readingBrowser mixedOrder of
      (p1, n1) \<Rightarrow>
        (filter (marked (dom p1)) (headingsOf (dom p1)), n1,
         case generateCues readingBrowser (dom p1) of
           (p2, n2) \<Rightarrow> (filter (marked (dom p2)) (headingsOf (dom p2)), n2, notesAfter 4 (events p2))))
   = ([4, 6], 2, [3, 4, 6], 1, 0)"
  by code_simp

text \<open>
  C8, as stated, fails: on a page where the first heading has too little content in the
  first run, the note inserted for a later heading gives it enough content in the second
  run. The first run marks two headings, the second run marks a third one.
\<close>

theorem second_run_marks_more:
  "markedHeadings (dom (fst (generateCues readingBrowser mixedOrder))) = {4, 6}
   \<and> markedHeadings (dom (fst (generateCues readingBrowser
          (dom (fst (generateCues readingBrowser mixedOrder)))))) = {3, 4, 6}"
  using mixed_order_runs unfolding markedHeadings_filter
  by (auto simp: split_beta)

theorem second_run_keeps_marks_witness:
  "marked (dom (fst (generateCues readingBrowser mixedOrder))) 4
   \<and> notesAfter 4 (events (fst (generateCues readingBrowser
          (dom (fst (generateCues readingBrowser mixedOrder)))))) = 0
   \<and> 4 \<in> markedHeadings (dom (fst (generateCues readingBrowser
          (dom (fst (generateCues readingBrowser mixedOrder))))))"
proof -
  have "4 \<in> set (filter (marked (dom (fst (generateCues readingBrowser mixedOrder))))
                 (headingsOf (dom (fst (generateCues readingBrowser mixedOrder)))))"
    using mixed_order_runs by (auto simp: split_beta)
  then have m: "marked (dom (fst (generateCues readingBrowser mixedOrder))) 4"
    and i: "4 \<in> markedHeadings (dom (fst (generateCues readingBrowser mixedOrder)))"
    by (simp_all add: markedHeadings_filter)
  show ?thesis
    using second_run_keeps_marks[of readingBrowser mixedOrder readingBrowser 4] m i by blast
qed

section \<open>Section content: the walk over the siblings of the parent\<close>

lemma trim_replicate:
  "\<not> isWhite c \<Longrightarrow> 0 < n \<Longrightarrow> trim (replicate n c @ '' '') = replicate n c"
proof -
  assume c: "\<not> isWhite c" and n: "0 < n"
  have w: "isWhite (CHR '' '')" by (simp add: isWhite_def)
  have 1: "dropWhile isWhite (replicate n c @ '' '') = replicate n c @ '' ''"
    using c n by (cases n) simp_all
  have 2: "rev (replicate n c @ '' '') = CHR '' '' # replicate n c" by simp
  have 3: "dropWhile isWhite (CHR '' '' # replicate n c) = replicate n c"
    using c n w by (cases n) simp_all
  show ?thesis unfolding trim_def 1 2 3 by simp
qed

text \<open>
  The walk over the siblings of the parent stops once 3000 characters are reached, but
  does not cut what it collected: a single long sibling takes the result beyond 3000
  characters. The first walk and the last fallback both cut at 3000.
\<close>

lemma parentWalk_not_cut:
  "length (getSectionContent textContent overlongPage 3) = 3100"
proof -
  have a: "\<not> isWhite (CHR ''a'')" by (simp add: isWhite_def)
  have t: "trim (replicate 3100 (CHR ''a'')) \<noteq> []"
    using a by (simp add: trim_nonempty_iff)
  have "getSectionContent textContent overlongPage 3 = trim (replicate 3100 (CHR ''a'') @ '' '')"
    using t
    by (simp add: getSectionContent_def findPlace_def overlongPage_def sectionOfPlace_def
        parseLevel_def querySelectorHeading_def descendants_def isHeading_def isHeadingTag_def
        skippedTag_def textOf_def orElse_def Let_def)
  then show ?thesis using trim_replicate[OF a, of 3100] by simp
qed

end
